theory Spec2Isabelle
  imports Main
begin

section \<open>The auto-updater of ClawX (electron/main/updater.ts)\<close>

subsection \<open>Channel detection\<close>

text \<open>
  \<^verbatim>\<open>detectChannel\<close> runs the regular expression \<^verbatim>\<open>/-([a-zA-Z]+)/\<close> on the version
  string and returns the captured group of the first (leftmost) match, or
  \<^verbatim>\<open>'latest'\<close> when there is none. The class \<^verbatim>\<open>[a-zA-Z]\<close> holds the 52 ASCII letters;
  neither a letter nor the hyphen occurs inside the encoding of a character beyond
  ASCII, so a string of bytes gives the same matches as the string of UTF-16 units.
\<close>

definition is_letter :: "char \<Rightarrow> bool" where
  "is_letter c =
     (let n = (of_char c :: nat) in (65 \<le> n \<and> n \<le> 90) \<or> (97 \<le> n \<and> n \<le> 122))"

text \<open>\<^verbatim>\<open>version.match(/-([a-zA-Z]+)/)\<close>: the capture of the leftmost match, the group
  being greedy.\<close>

fun match_label :: "string \<Rightarrow> string option" where
  "match_label [] = None"
| "match_label (c # cs) =
     (if c = CHR ''-'' \<and> takeWhile is_letter cs \<noteq> [] then Some (takeWhile is_letter cs)
      else match_label cs)"

definition detectChannel :: "string \<Rightarrow> string" where
  "detectChannel version =
     (case match_label version of Some label \<Rightarrow> label | None \<Rightarrow> ''latest'')"


text \<open>The spec's pattern \<^verbatim>\<open><core>-<tag>.<n>\<close>, written from the spec's words to be
  compared with \<open>detectChannel\<close>: a core of digits and dots, a hyphen, a tag of
  letters, a dot and a number.\<close>

definition is_digit :: "char \<Rightarrow> bool" where
  "is_digit c = (let n = (of_char c :: nat) in 48 \<le> n \<and> n \<le> 57)"

definition core_tag_n :: "string \<Rightarrow> string option" where
  "core_tag_n v =
     (let core = takeWhile (\<lambda>c. c \<noteq> CHR ''-'') v;
          rest = dropWhile (\<lambda>c. c \<noteq> CHR ''-'') v;
          tag = takeWhile (\<lambda>c. c \<noteq> CHR ''.'') (tl rest);
          num = dropWhile (\<lambda>c. c \<noteq> CHR ''.'') (tl rest)
      in if core \<noteq> [] \<and> list_all (\<lambda>c. is_digit c \<or> c = CHR ''.'') core
            \<and> rest \<noteq> [] \<and> tag \<noteq> [] \<and> list_all is_letter tag
            \<and> num \<noteq> [] \<and> tl num \<noteq> [] \<and> list_all is_digit (tl num)
         then Some tag else None)"

definition ChannelResolver_spec :: "string \<Rightarrow> string" where
  "ChannelResolver_spec v = (case core_tag_n v of Some tag \<Rightarrow> tag | None \<Rightarrow> ''latest'')"

text \<open>Position \<open>i\<close> of \<open>v\<close> holds a hyphen and position \<open>i + 1\<close> a letter: a match of
  the regular expression starts at \<open>i\<close>.\<close>

definition label_at :: "string \<Rightarrow> nat \<Rightarrow> bool" where
  "label_at v i \<longleftrightarrow> Suc i < length v \<and> v ! i = CHR ''-'' \<and> is_letter (v ! Suc i)"

subsection \<open>Data model\<close>

text \<open>\<^verbatim>\<open>UpdateInfo\<close>, \<^verbatim>\<open>UpdateDownloadedEvent\<close> and \<^verbatim>\<open>ProgressInfo\<close> come from
  electron-updater and are only stored and passed on; they are kept as opaque payloads
  (a version string, a percentage).\<close>

datatype update_info = UpdateInfo (version: string)

datatype progress_info = ProgressInfo (percent: nat)

datatype status_tag =
  Idle | Checking | Available | NotAvailable | Downloading | Downloaded | Error

text \<open>\<^verbatim>\<open>interface UpdateStatus\<close>: the tag and three optional fields (\<open>None\<close> is an
  absent field).\<close>

record update_status =
  status :: status_tag
  info :: "update_info option"
  progress :: "progress_info option"
  error :: "string option"

text \<open>\<^verbatim>\<open>Partial<UpdateStatus>\<close>: every field may be absent.\<close>

record partial_status =
  p_status :: "status_tag option"
  p_info :: "update_info option"
  p_progress :: "progress_info option"
  p_error :: "string option"

text \<open>The object spread \<^verbatim>\<open>{ ...this.status, ...newStatus }\<close>: a field of the partial
  update replaces the old one, a field it lacks keeps its old value.\<close>

definition merge_status :: "update_status \<Rightarrow> partial_status \<Rightarrow> update_status" where
  "merge_status s p =
     \<lparr> status = (case p_status p of Some t \<Rightarrow> t | None \<Rightarrow> status s),
       info = (case p_info p of Some i \<Rightarrow> Some i | None \<Rightarrow> info s),
       progress = (case p_progress p of Some g \<Rightarrow> Some g | None \<Rightarrow> progress s),
       error = (case p_error p of Some e \<Rightarrow> Some e | None \<Rightarrow> error s) \<rparr>"

definition only_status :: "status_tag \<Rightarrow> partial_status" where
  "only_status t = \<lparr> p_status = Some t, p_info = None, p_progress = None, p_error = None \<rparr>"

text \<open>What is sent to the renderer: \<^verbatim>\<open>update:status-changed\<close> with the status, and
  \<^verbatim>\<open>update:auto-install-countdown\<close> with \<^verbatim>\<open>{ seconds }\<close> or
  \<^verbatim>\<open>{ seconds, cancelled }\<close>.\<close>

datatype message =
  StatusChanged update_status
| AutoInstallCountdown (seconds: int) (cancelled: "bool option")

datatype timeout_kind = StagingFallback | QuitSafety

text \<open>The calls the updater makes on the outside world, in the order it makes them.
  Logging and the re-emission of events on the \<^verbatim>\<open>AppUpdater\<close> emitter itself
  (\<^verbatim>\<open>this.emit\<close>) read and write no field of the updater and are left out.\<close>

datatype effect =
  Send message
| SetInterval nat
| ClearInterval nat
| SetTimeout nat timeout_kind
| ClearTimeout nat
| QuitAndInstall
| AppQuit

text \<open>
  The fields of \<^verbatim>\<open>AppUpdater\<close>, followed by the part of the environment its methods
  read and write: \<^verbatim>\<open>autoUpdater.autoDownload\<close>, \<^verbatim>\<open>process.platform === 'darwin'\<close>,
  the timers of the event loop that are still pending, and the \<^verbatim>\<open>once\<close> listeners
  registered on the native updater's \<^verbatim>\<open>update-downloaded\<close> event, in registration order.
  A timer handle is a number taken from \<open>nextId\<close>. Each call of
  \<^verbatim>\<open>waitForSquirrelThenAutoInstall\<close> creates one closure \<^verbatim>\<open>onReady\<close> and one fallback
  timer; both carry the same number. \<open>mainWindow\<close> is \<open>None\<close> for \<^verbatim>\<open>null\<close> and
  \<open>Some d\<close> for a window whose \<^verbatim>\<open>isDestroyed()\<close> is \<open>d\<close>.
\<close>

record updater =
  mainWindow :: "bool option"
  ustatus :: update_status
  autoInstallTimer :: "nat option"
  autoInstallCountdown :: int
  nativeSquirrelReady :: bool
  squirrelFallbackTimer :: "nat option"
  autoInstallCancelled :: bool
  autoDownload :: bool
  darwin :: bool
  intervals :: "nat list"
  timeouts :: "(nat \<times> timeout_kind) list"
  onReadyListeners :: "nat list"
  nextId :: nat
  trace :: "effect list"

definition AUTO_INSTALL_DELAY_SECONDS :: int where
  "AUTO_INSTALL_DELAY_SECONDS = 5"

text \<open>The state the constructor leaves, on the given platform.\<close>

definition init :: "bool \<Rightarrow> updater" where
  "init on_darwin =
     \<lparr> mainWindow = None,
       ustatus = \<lparr> status = Idle, info = None, progress = None, error = None \<rparr>,
       autoInstallTimer = None,
       autoInstallCountdown = 0,
       nativeSquirrelReady = False,
       squirrelFallbackTimer = None,
       autoInstallCancelled = False,
       autoDownload = False,
       darwin = on_darwin,
       intervals = [],
       timeouts = [],
       onReadyListeners = [],
       nextId = 0,
       trace = [] \<rparr>"

subsection \<open>Methods\<close>

definition sendToRenderer :: "updater \<Rightarrow> message \<Rightarrow> updater" where
  "sendToRenderer u m =
     (if mainWindow u = Some False then u\<lparr>trace := trace u @ [Send m]\<rparr> else u)"

definition updateStatus :: "updater \<Rightarrow> partial_status \<Rightarrow> updater" where
  "updateStatus u newStatus =
     (let u1 = u\<lparr>ustatus := merge_status (ustatus u) newStatus\<rparr>
      in sendToRenderer u1 (StatusChanged (ustatus u1)))"

definition clearAutoInstallTimer :: "updater \<Rightarrow> updater" where
  "clearAutoInstallTimer u =
     (case autoInstallTimer u of
        None \<Rightarrow> u
      | Some t \<Rightarrow> u\<lparr>intervals := removeAll t (intervals u),
                    trace := trace u @ [ClearInterval t],
                    autoInstallTimer := None\<rparr>)"

definition clearSquirrelFallbackTimer :: "updater \<Rightarrow> updater" where
  "clearSquirrelFallbackTimer u =
     (case squirrelFallbackTimer u of
        None \<Rightarrow> u
      | Some t \<Rightarrow> u\<lparr>timeouts := filter (\<lambda>(i, k). i \<noteq> t) (timeouts u),
                    trace := trace u @ [ClearTimeout t],
                    squirrelFallbackTimer := None\<rparr>)"

text \<open>\<^verbatim>\<open>quitAndInstall\<close>: the external install request, then the safety timer when the
  native stager has not signalled on macOS. What the external call does to the process
  is not in this file; the model lets the process go on, which is the case the safety
  timer exists for.\<close>

definition quitAndInstall :: "updater \<Rightarrow> updater" where
  "quitAndInstall u =
     (let u1 = u\<lparr>trace := trace u @ [QuitAndInstall]\<rparr>
      in if darwin u1 \<and> \<not> nativeSquirrelReady u1
         then u1\<lparr>timeouts := timeouts u1 @ [(nextId u1, QuitSafety)],
                 trace := trace u1 @ [SetTimeout (nextId u1) QuitSafety],
                 nextId := Suc (nextId u1)\<rparr>
         else u1)"

text \<open>The callback given to \<^verbatim>\<open>setInterval\<close>.\<close>

definition countdownTick :: "updater \<Rightarrow> updater" where
  "countdownTick u =
     (let u1 = u\<lparr>autoInstallCountdown := autoInstallCountdown u - 1\<rparr>;
          u2 = sendToRenderer u1 (AutoInstallCountdown (autoInstallCountdown u1) None)
      in if autoInstallCountdown u2 \<le> 0 then quitAndInstall (clearAutoInstallTimer u2)
         else u2)"

definition startAutoInstallCountdown :: "updater \<Rightarrow> updater" where
  "startAutoInstallCountdown u =
     (let u1 = clearAutoInstallTimer u;
          u2 = u1\<lparr>autoInstallCountdown := AUTO_INSTALL_DELAY_SECONDS\<rparr>;
          u3 = sendToRenderer u2 (AutoInstallCountdown (autoInstallCountdown u2) None)
      in u3\<lparr>intervals := intervals u3 @ [nextId u3],
             trace := trace u3 @ [SetInterval (nextId u3)],
             autoInstallTimer := Some (nextId u3),
             nextId := Suc (nextId u3)\<rparr>)"

text \<open>The closure \<^verbatim>\<open>onReady\<close> of \<^verbatim>\<open>waitForSquirrelThenAutoInstall\<close>.\<close>

definition onReady :: "updater \<Rightarrow> updater" where
  "onReady u =
     (let u1 = clearSquirrelFallbackTimer u
      in if autoInstallCancelled u1 then u1 else startAutoInstallCountdown u1)"

text \<open>The callback of the fallback timer of the wait numbered \<open>w\<close>.\<close>

definition fallbackFired :: "updater \<Rightarrow> nat \<Rightarrow> updater" where
  "fallbackFired u w =
     (let u1 = u\<lparr>squirrelFallbackTimer := None\<rparr>;
          u2 = u1\<lparr>onReadyListeners := removeAll w (onReadyListeners u1)\<rparr>
      in if autoInstallCancelled u2 then u2
         else if autoInstallTimer u2 = None then startAutoInstallCountdown u2
         else u2)"

definition waitForSquirrelThenAutoInstall :: "updater \<Rightarrow> updater" where
  "waitForSquirrelThenAutoInstall u =
     (let u1 = u\<lparr>autoInstallCancelled := False\<rparr>;
          w = nextId u1;
          u2 = u1\<lparr>onReadyListeners := onReadyListeners u1 @ [w]\<rparr>
      in u2\<lparr>timeouts := timeouts u2 @ [(w, StagingFallback)],
             trace := trace u2 @ [SetTimeout w StagingFallback],
             squirrelFallbackTimer := Some w,
             nextId := Suc w\<rparr>)"

definition cancelAutoInstall :: "updater \<Rightarrow> updater" where
  "cancelAutoInstall u =
     (let u1 = u\<lparr>autoInstallCancelled := True\<rparr>;
          u2 = clearSquirrelFallbackTimer u1;
          u3 = clearAutoInstallTimer u2
      in sendToRenderer u3 (AutoInstallCountdown (- 1) (Some True)))"

text \<open>The listener of electron-updater's \<^verbatim>\<open>update-downloaded\<close>.\<close>

definition onUpdateDownloaded :: "updater \<Rightarrow> update_info \<Rightarrow> updater" where
  "onUpdateDownloaded u ev =
     (let u1 = updateStatus u ((only_status Downloaded)\<lparr>p_info := Some ev\<rparr>)
      in if autoDownload u1
         then (if darwin u1 \<and> \<not> nativeSquirrelReady u1
               then waitForSquirrelThenAutoInstall u1
               else startAutoInstallCountdown u1)
         else u1)"

text \<open>The native updater emits \<^verbatim>\<open>update-downloaded\<close>: the constructor's listener (there
  on macOS only) runs first, then every registered \<^verbatim>\<open>onReady\<close>, each removed as it
  runs (\<^verbatim>\<open>once\<close>).\<close>

definition onNativeUpdateDownloaded :: "updater \<Rightarrow> updater" where
  "onNativeUpdateDownloaded u =
     (let u1 = (if darwin u then u\<lparr>nativeSquirrelReady := True\<rparr> else u);
          ls = onReadyListeners u1;
          u2 = u1\<lparr>onReadyListeners := []\<rparr>
      in foldl (\<lambda>s l. onReady s) u2 ls)"

subsection \<open>Checking for updates\<close>

text \<open>
  What \<^verbatim>\<open>catch (error)\<close> can catch: \<^verbatim>\<open>null\<close> or \<^verbatim>\<open>undefined\<close>, or any other value,
  given by its \<^verbatim>\<open>message\<close> property (\<open>None\<close> when it has none; the cast to
  \<^verbatim>\<open>Error\<close> takes it for a string) and by the result of \<^verbatim>\<open>String(error)\<close> (\<open>None\<close>
  when the conversion itself throws, as it does for an object without \<^verbatim>\<open>toString\<close>).
\<close>

datatype thrown = Nullish | Thrown "string option" "string option"

text \<open>
  \<^verbatim>\<open>(error as Error).message || String(error)\<close>. Reading a property of \<^verbatim>\<open>null\<close> or
  \<^verbatim>\<open>undefined\<close> throws a TypeError; an absent or empty message is falsy and hands over
  to \<^verbatim>\<open>String(error)\<close>. The result is \<open>None\<close> when the expression throws.
\<close>

fun failure_text :: "thrown \<Rightarrow> string option" where
  "failure_text Nullish = None"
| "failure_text (Thrown (Some m) s) = (if m \<noteq> [] then Some m else s)"
| "failure_text (Thrown None s) = s"

text \<open>What \<^verbatim>\<open>checkForUpdates\<close> throws to its caller: the value it caught, or the error
  that its catch block raised itself while it evaluated the text.\<close>

datatype raised = Rethrown thrown | RaisedInCatch

text \<open>How \<^verbatim>\<open>await autoUpdater.checkForUpdates()\<close> ends: with \<^verbatim>\<open>null\<close>, with a result
  whose \<^verbatim>\<open>updateInfo\<close> may be missing, or by throwing.\<close>

datatype check_outcome = ResolvesNull | Resolves "update_info option" | Rejects thrown

text \<open>The literal of the source; its dash is U+2013, three bytes in UTF-8.\<close>

definition DEV_MODE_MESSAGE :: string where
  "DEV_MODE_MESSAGE =
     ''Update check skipped (dev mode '' @ [CHR 0xE2, CHR 0x80, CHR 0x93]
       @ '' app is not packaged)''"

text \<open>
  The part of \<^verbatim>\<open>checkForUpdates\<close> that runs when the awaited call has ended. The
  result is \<open>Inl r\<close> when \<open>r\<close> is thrown to the caller. In the catch block the text is
  evaluated as the argument of \<^verbatim>\<open>updateStatus\<close>: when that evaluation throws,
  \<^verbatim>\<open>updateStatus\<close> is not called, \<^verbatim>\<open>throw error\<close> is not reached, and the new error
  leaves the method.
\<close>

definition checkSettled ::
  "updater \<Rightarrow> check_outcome \<Rightarrow> updater \<times> (raised + update_info option)" where
  "checkSettled u outcome =
     (case outcome of
        ResolvesNull \<Rightarrow>
          (updateStatus u ((only_status Error)\<lparr>p_error := Some DEV_MODE_MESSAGE\<rparr>),
           Inr None)
      | Resolves updateInfo \<Rightarrow>
          ((if status (ustatus u) = Checking \<or> status (ustatus u) = Idle
            then updateStatus u (only_status NotAvailable) else u),
           Inr updateInfo)
      | Rejects e \<Rightarrow>
          (case failure_text e of
             None \<Rightarrow> (u, Inl RaisedInCatch)
           | Some text \<Rightarrow>
               (updateStatus u ((only_status Error)\<lparr>p_error := Some text\<rparr>),
                Inl (Rethrown e))))"

subsection \<open>The event loop\<close>

text \<open>
  Everything runs on one thread; between two callbacks the updater's fields do not
  change. An event is one callback: an event of electron-updater, the native updater's
  signal, a timer that fires, a request of the hosting application, or the end of a
  pending \<^verbatim>\<open>checkForUpdates\<close>. A timer fires only while it is pending: a cleared timer
  never calls back, and a timeout fires once; the event of a timer that is not pending
  leaves the state as it is. \<open>SetMainWindow d\<close> stands for \<^verbatim>\<open>setMainWindow\<close> with a
  window whose \<^verbatim>\<open>isDestroyed()\<close> is \<open>d\<close>, and for the window's destruction.
\<close>

datatype event =
  CheckingForUpdate
| UpdateAvailable update_info
| UpdateNotAvailable update_info
| DownloadProgress progress_info
| UpdateDownloaded update_info
| UpdaterError string
| NativeUpdateDownloaded
| IntervalFires nat
| TimeoutFires nat
| SetMainWindow bool
| SetAutoDownload bool
| CancelAutoInstall
| InstallRequested
| CheckSettles check_outcome

definition timeoutFires :: "updater \<Rightarrow> nat \<Rightarrow> updater" where
  "timeoutFires u t =
     (case map_of (timeouts u) t of
        None \<Rightarrow> u
      | Some k \<Rightarrow>
          (let u1 = u\<lparr>timeouts := filter (\<lambda>(i, k). i \<noteq> t) (timeouts u)\<rparr>
           in case k of
                StagingFallback \<Rightarrow> fallbackFired u1 t
              | QuitSafety \<Rightarrow> u1\<lparr>trace := trace u1 @ [AppQuit]\<rparr>))"

fun step :: "updater \<Rightarrow> event \<Rightarrow> updater" where
  "step u CheckingForUpdate = updateStatus u (only_status Checking)"
| "step u (UpdateAvailable i) = updateStatus u ((only_status Available)\<lparr>p_info := Some i\<rparr>)"
| "step u (UpdateNotAvailable i) =
     updateStatus u ((only_status NotAvailable)\<lparr>p_info := Some i\<rparr>)"
| "step u (DownloadProgress g) =
     updateStatus u ((only_status Downloading)\<lparr>p_progress := Some g\<rparr>)"
| "step u (UpdateDownloaded ev) = onUpdateDownloaded u ev"
| "step u (UpdaterError m) = updateStatus u ((only_status Error)\<lparr>p_error := Some m\<rparr>)"
| "step u NativeUpdateDownloaded = onNativeUpdateDownloaded u"
| "step u (IntervalFires t) = (if t \<in> set (intervals u) then countdownTick u else u)"
| "step u (TimeoutFires t) = timeoutFires u t"
| "step u (SetMainWindow d) = u\<lparr>mainWindow := Some d\<rparr>"
| "step u (SetAutoDownload b) = u\<lparr>autoDownload := b\<rparr>"
| "step u CancelAutoInstall = cancelAutoInstall u"
| "step u InstallRequested = quitAndInstall u"
| "step u (CheckSettles outcome) = fst (checkSettled u outcome)"

fun run :: "updater \<Rightarrow> event list \<Rightarrow> updater" where
  "run u [] = u"
| "run u (e # es) = run (step u e) es"

text \<open>\<^verbatim>\<open>checkForUpdates\<close>: the events handled while the call is awaited, then the
  settled part.\<close>

definition checkForUpdates ::
  "updater \<Rightarrow> event list \<Rightarrow> check_outcome \<Rightarrow> updater \<times> (raised + update_info option)" where
  "checkForUpdates u during outcome = checkSettled (run u during) outcome"

subsection \<open>Reading the trace\<close>

text \<open>The countdown events sent to the renderer, the calls of
  \<^verbatim>\<open>autoUpdater.quitAndInstall\<close>, and the calls of \<^verbatim>\<open>setInterval\<close>, which only
  \<^verbatim>\<open>startAutoInstallCountdown\<close> makes.\<close>

fun countdown_events :: "effect list \<Rightarrow> (int \<times> bool option) list" where
  "countdown_events [] = []"
| "countdown_events (Send (AutoInstallCountdown s c) # es) = (s, c) # countdown_events es"
| "countdown_events (e # es) = countdown_events es"

definition installs :: "effect list \<Rightarrow> nat" where
  "installs es = length (filter (\<lambda>e. e = QuitAndInstall) es)"

definition countdown_starts :: "effect list \<Rightarrow> nat" where
  "countdown_starts es = length (filter (\<lambda>e. case e of SetInterval t \<Rightarrow> True | _ \<Rightarrow> False) es)"

subsection \<open>Invariants and scenarios\<close>

text \<open>The pending interval timers are exactly the one the updater holds a handle of, and
  every pending timeout has a handle handed out before.\<close>

definition timers_ok :: "updater \<Rightarrow> bool" where
  "timers_ok u \<longleftrightarrow>
     intervals u = (case autoInstallTimer u of None \<Rightarrow> [] | Some t \<Rightarrow> [t])
     \<and> list_all (\<lambda>(i, k). i < nextId u) (timeouts u)"

text \<open>A countdown is running on timer \<open>t\<close> with \<open>c\<close> seconds left.\<close>

definition counting :: "updater \<Rightarrow> nat \<Rightarrow> int \<Rightarrow> bool" where
  "counting u t c \<longleftrightarrow>
     autoInstallTimer u = Some t \<and> t \<in> set (intervals u) \<and> autoInstallCountdown u = c"

text \<open>The countdown events of \<open>n\<close> ticks that find \<open>c\<close> seconds left:
  \<open>c - 1, \<dots>, c - n\<close>; with the initial event of the start in front:
  \<open>c, c - 1, \<dots>, c - n\<close>.\<close>

fun ticks_down :: "int \<Rightarrow> nat \<Rightarrow> (int \<times> bool option) list" where
  "ticks_down c 0 = []"
| "ticks_down c (Suc n) = (c - 1, None) # ticks_down (c - 1) n"

definition seconds_down :: "int \<Rightarrow> nat \<Rightarrow> (int \<times> bool option) list" where
  "seconds_down c n = (c, None) # ticks_down c n"

text \<open>Events that neither begin a new downloaded cycle nor ask for an install or a
  cancellation by hand.\<close>

fun same_cycle :: "event \<Rightarrow> bool" where
  "same_cycle (UpdateDownloaded ev) = False"
| "same_cycle InstallRequested = False"
| "same_cycle CancelAutoInstall = False"
| "same_cycle e = True"

text \<open>The state a cancellation leaves: the flag set and no countdown timer.\<close>

definition cancelled_idle :: "updater \<Rightarrow> bool" where
  "cancelled_idle u \<longleftrightarrow>
     autoInstallCancelled u \<and> intervals u = [] \<and> autoInstallTimer u = None"

text \<open>What the claims about the countdown observe of a trace.\<close>

definition observed :: "updater \<Rightarrow> (int \<times> bool option) list \<times> nat" where
  "observed u = (countdown_events (trace u), installs (trace u))"

text \<open>The payload rule as the spec words it: a payload field is present only under the
  tags it belongs to.\<close>

definition payload_by_tag :: "update_status \<Rightarrow> bool" where
  "payload_by_tag s \<longleftrightarrow>
     (info s \<noteq> None \<longrightarrow> status s = Available \<or> status s = NotAvailable \<or> status s = Downloaded)
     \<and> (progress s \<noteq> None \<longrightarrow> status s = Downloading)
     \<and> (error s \<noteq> None \<longrightarrow> status s = Error)"

text \<open>What the merge does keep: nothing is there at \<open>Idle\<close>, and the field of the tag is
  there under the tags that always come with it.\<close>

definition payload_present :: "update_status \<Rightarrow> bool" where
  "payload_present s \<longleftrightarrow>
     (status s = Idle \<longrightarrow> info s = None \<and> progress s = None \<and> error s = None)
     \<and> (status s = Available \<or> status s = Downloaded \<longrightarrow> info s \<noteq> None)
     \<and> (status s = Downloading \<longrightarrow> progress s \<noteq> None)
     \<and> (status s = Error \<longrightarrow> error s \<noteq> None)"

text \<open>The timeout with handle \<open>w\<close> was handed out and is not pending any more.\<close>

definition retired :: "updater \<Rightarrow> nat \<Rightarrow> bool" where
  "retired u w \<longleftrightarrow> w < nextId u \<and> list_all (\<lambda>(i, k). i \<noteq> w) (timeouts u)"

section \<open>Channel detection: properties\<close>


lemma takeWhile_letter_nonempty:
  "takeWhile is_letter cs \<noteq> [] \<longleftrightarrow> cs \<noteq> [] \<and> is_letter (hd cs)"
  by (cases cs) auto

lemma label_at_Cons_Suc: "label_at (c # cs) (Suc i) = label_at cs i"
  by (simp add: label_at_def)

lemma label_at_Cons_0:
  "label_at (c # cs) 0 \<longleftrightarrow> c = CHR ''-'' \<and> takeWhile is_letter cs \<noteq> []"
  by (cases cs) (auto simp: label_at_def)

lemma match_label_None: "match_label v = None \<longleftrightarrow> (\<forall>i. \<not> label_at v i)"
proof (induction v)
  case Nil
  show ?case by (simp add: label_at_def)
next
  case (Cons c cs)
  show ?case
  proof (cases "label_at (c # cs) 0")
    case True
    then have "match_label (c # cs) \<noteq> None" by (simp add: label_at_Cons_0)
    with True show ?thesis by blast
  next
    case False
    have "(\<forall>i. \<not> label_at (c # cs) i) \<longleftrightarrow> (\<forall>i. \<not> label_at cs i)"
    proof
      assume a: "\<forall>i. \<not> label_at (c # cs) i"
      show "\<forall>i. \<not> label_at cs i"
      proof
        fix i
        from a have "\<not> label_at (c # cs) (Suc i)" by blast
        then show "\<not> label_at cs i" by (simp add: label_at_Cons_Suc)
      qed
    next
      assume a: "\<forall>i. \<not> label_at cs i"
      show "\<forall>i. \<not> label_at (c # cs) i"
      proof
        fix i
        show "\<not> label_at (c # cs) i"
          using a False by (cases i) (simp_all add: label_at_Cons_Suc)
      qed
    qed
    with False Cons.IH show ?thesis by (auto simp: label_at_Cons_0)
  qed
qed

lemma match_label_first:
  "label_at v i \<Longrightarrow> (\<forall>j<i. \<not> label_at v j) \<Longrightarrow>
     match_label v = Some (takeWhile is_letter (drop (Suc i) v))"
proof (induction v arbitrary: i)
  case Nil
  then show ?case by (simp add: label_at_def)
next
  case (Cons c cs)
  show ?case
  proof (cases i)
    case 0
    with Cons.prems(1) show ?thesis by (simp add: label_at_Cons_0)
  next
    case (Suc k)
    from Cons.prems(2) Suc have n0: "\<not> label_at (c # cs) 0" by blast
    from Cons.prems(1) Suc have lk: "label_at cs k" by (simp add: label_at_Cons_Suc)
    have "\<forall>j<k. \<not> label_at cs j"
    proof (intro allI impI)
      fix j assume "j < k"
      then have "Suc j < i" using Suc by simp
      with Cons.prems(2) have "\<not> label_at (c # cs) (Suc j)" by blast
      then show "\<not> label_at cs j" by (simp add: label_at_Cons_Suc)
    qed
    with lk have "match_label cs = Some (takeWhile is_letter (drop (Suc k) cs))"
      by (rule Cons.IH)
    with n0 Suc show ?thesis by (auto simp: label_at_Cons_0)
  qed
qed

lemma match_label_skip:
  "CHR ''-'' \<notin> set core \<Longrightarrow> match_label (core @ s) = match_label s"
  by (induction core) auto

lemma takeWhile_letters_then:
  "list_all is_letter tag \<Longrightarrow> \<not> is_letter c \<Longrightarrow> takeWhile is_letter (tag @ c # r) = tag"
  by (induction tag) auto

lemma not_letter_dot: "\<not> is_letter (CHR ''.'')"
  by (simp add: is_letter_def)

lemma core_tag_n_shape:
  assumes "core_tag_n v = Some tag"
  shows "\<exists>core num. v = core @ CHR ''-'' # tag @ CHR ''.'' # num \<and> CHR ''-'' \<notin> set core
           \<and> tag \<noteq> [] \<and> list_all is_letter tag"
proof -
  define core where "core = takeWhile (\<lambda>c. c \<noteq> CHR ''-'') v"
  define rest where "rest = dropWhile (\<lambda>c. c \<noteq> CHR ''-'') v"
  define num where "num = dropWhile (\<lambda>c. c \<noteq> CHR ''.'') (tl rest)"
  define tg where "tg = takeWhile (\<lambda>c. c \<noteq> CHR ''.'') (tl rest)"
  from assms have c: "rest \<noteq> []" "tg \<noteq> []" "list_all is_letter tg" "num \<noteq> []" "tag = tg"
    by (auto simp: core_tag_n_def Let_def core_def rest_def num_def tg_def split: if_splits)
  have v: "v = core @ rest" by (simp add: core_def rest_def)
  from c(1) have "hd rest = CHR ''-''"
    unfolding rest_def using hd_dropWhile[of "\<lambda>c. c \<noteq> CHR ''-''" v] by auto
  with c(1) have r: "rest = CHR ''-'' # tl rest" by (cases rest) auto
  have t: "tl rest = tg @ num" by (simp add: tg_def num_def)
  from c(4) have "hd num = CHR ''.''"
    unfolding num_def using hd_dropWhile[of "\<lambda>c. c \<noteq> CHR ''.''" "tl rest"] by auto
  with c(4) have n: "num = CHR ''.'' # tl num" by (cases num) auto
  have nc: "CHR ''-'' \<notin> set core"
    unfolding core_def by (auto dest: set_takeWhileD)
  have "v = core @ CHR ''-'' # tg @ CHR ''.'' # tl num"
    using v r t n by metis
  with nc c show ?thesis by blast
qed

lemma core_tag_n_detect:
  assumes "core_tag_n v = Some tag" shows "detectChannel v = tag"
proof -
  from core_tag_n_shape[OF assms] obtain core num where
    v: "v = core @ CHR ''-'' # tag @ CHR ''.'' # num" and nc: "CHR ''-'' \<notin> set core"
    and t: "tag \<noteq> []" "list_all is_letter tag" by blast
  have tw: "takeWhile is_letter (tag @ CHR ''.'' # num) = tag"
    using t(2) not_letter_dot by (rule takeWhile_letters_then)
  have "match_label v = match_label (CHR ''-'' # tag @ CHR ''.'' # num)"
    unfolding v using nc by (rule match_label_skip)
  also have "\<dots> = Some tag" using tw t(1) by simp
  finally show ?thesis by (simp add: detectChannel_def)
qed

text \<open>
  Claim C5, as the spec words it: a version of the form \<^verbatim>\<open><core>-<tag>.<n>\<close> gives the
  tag, every other version string gives \<^verbatim>\<open>latest\<close>. The second half fails:
  \<^verbatim>\<open>1.0.0-beta\<close> has no \<^verbatim>\<open>.<n>\<close>, and \<open>detectChannel\<close> returns \<^verbatim>\<open>beta\<close> for it.
\<close>

theorem detectChannel_spec_counterexample:
  "ChannelResolver_spec ''1.0.0-beta'' = ''latest'' \<and> detectChannel ''1.0.0-beta'' = ''beta''"
  by (simp add: ChannelResolver_spec_def core_tag_n_def detectChannel_def is_letter_def
        is_digit_def)

text \<open>
  Claim C5, amended: \<open>detectChannel\<close> is a total function of the string alone. When no
  hyphen of the version is directly followed by an ASCII letter it returns
  \<^verbatim>\<open>latest\<close>; otherwise it returns the longest run of ASCII letters after the first
  such hyphen. In particular every version of the form \<^verbatim>\<open><core>-<tag>.<n>\<close> gives
  its tag.
\<close>

theorem detectChannel_first_label:
  "((\<forall>i. \<not> label_at v i) \<longrightarrow> detectChannel v = ''latest'')
   \<and> (label_at v i \<and> (\<forall>j<i. \<not> label_at v j) \<longrightarrow>
        detectChannel v = takeWhile is_letter (drop (Suc i) v))
   \<and> (core_tag_n v = Some tag \<longrightarrow> detectChannel v = tag)"
proof (intro conjI impI)
  assume "\<forall>i. \<not> label_at v i"
  then have "match_label v = None" by (simp add: match_label_None)
  then show "detectChannel v = ''latest''" by (simp add: detectChannel_def)
next
  assume "label_at v i \<and> (\<forall>j<i. \<not> label_at v j)"
  then have "match_label v = Some (takeWhile is_letter (drop (Suc i) v))"
    by (simp add: match_label_first)
  then show "detectChannel v = takeWhile is_letter (drop (Suc i) v)"
    by (simp add: detectChannel_def)
next
  assume "core_tag_n v = Some tag"
  then show "detectChannel v = tag" by (rule core_tag_n_detect)
qed

theorem detectChannel_first_label_witness:
  "detectChannel ''1.0.0'' = ''latest''
   \<and> detectChannel ''1.0.0-beta'' = ''beta''
   \<and> detectChannel ''0.1.8-alpha.0'' = ''alpha''"
proof -
  have "match_label ''1.0.0'' = None" by simp
  with match_label_None [of "''1.0.0''"] have h1: "\<forall>i. \<not> label_at ''1.0.0'' i"
    by blast
  have h2: "label_at ''1.0.0-beta'' 5"
    by (simp add: label_at_def is_letter_def)
  have "\<not> label_at ''1.0.0-beta'' j" if "j < 5" for j
  proof -
    from that have "j = 0 \<or> j = 1 \<or> j = 2 \<or> j = 3 \<or> j = 4" by arith
    then show ?thesis by (auto simp: label_at_def)
  qed
  then have h3: "\<forall>j<5. \<not> label_at ''1.0.0-beta'' j" by blast
  have tw: "takeWhile is_letter (drop (Suc 5) ''1.0.0-beta'') = ''beta''"
    by (simp add: is_letter_def)
  have h4: "core_tag_n ''0.1.8-alpha.0'' = Some ''alpha''"
    by (simp add: core_tag_n_def is_letter_def is_digit_def)
  from detectChannel_first_label [of "''1.0.0''"] h1
  have c1: "detectChannel ''1.0.0'' = ''latest''" by blast
  from detectChannel_first_label [of "''1.0.0-beta''" 5] h2 h3 tw
  have c2: "detectChannel ''1.0.0-beta'' = ''beta''" by simp
  from detectChannel_first_label [of "''0.1.8-alpha.0''" _ "''alpha''"] h4
  have c3: "detectChannel ''0.1.8-alpha.0'' = ''alpha''" by blast
  from c1 c2 c3 show ?thesis by blast
qed

section \<open>The auto-install countdown\<close>

lemma run_append: "run u (xs @ ys) = run (run u xs) ys"
  by (induction xs arbitrary: u) auto

lemma countdown_events_append:
  "countdown_events (xs @ ys) = countdown_events xs @ countdown_events ys"
  by (induction xs rule: countdown_events.induct) auto

lemma installs_append: "installs (xs @ ys) = installs xs + installs ys"
  by (simp add: installs_def)

lemma countdown_starts_append:
  "countdown_starts (xs @ ys) = countdown_starts xs + countdown_starts ys"
  by (simp add: countdown_starts_def)

lemma installs_simps:
  "installs [] = 0" "installs (Send m # es) = installs es"
  "installs (QuitAndInstall # es) = Suc (installs es)"
  "installs (ClearInterval t # es) = installs es"
  "installs (SetInterval t # es) = installs es"
  "installs (SetTimeout t k # es) = installs es"
  "installs (ClearTimeout t # es) = installs es"
  "installs (AppQuit # es) = installs es"
  by (simp_all add: installs_def)

lemma countdown_starts_simps:
  "countdown_starts [] = 0" "countdown_starts (Send m # es) = countdown_starts es"
  "countdown_starts (QuitAndInstall # es) = countdown_starts es"
  "countdown_starts (ClearInterval t # es) = countdown_starts es"
  "countdown_starts (SetInterval t # es) = Suc (countdown_starts es)"
  "countdown_starts (SetTimeout t k # es) = countdown_starts es"
  "countdown_starts (ClearTimeout t # es) = countdown_starts es"
  "countdown_starts (AppQuit # es) = countdown_starts es"
  by (simp_all add: countdown_starts_def)

lemmas trace_simps = countdown_events_append installs_append countdown_starts_append
  installs_simps countdown_starts_simps

text \<open>One tick of a running countdown.\<close>

lemma tick_more:
  assumes "counting v t c" "1 < c"
  shows "counting (step v (IntervalFires t)) t (c - 1)"
    and "installs (trace (step v (IntervalFires t))) = installs (trace v)"
    and "mainWindow (step v (IntervalFires t)) = mainWindow v"
    and "mainWindow v = Some False \<Longrightarrow>
         countdown_events (trace (step v (IntervalFires t)))
           = countdown_events (trace v) @ [(c - 1, None)]"
  using assms
  by (simp_all add: counting_def countdownTick_def sendToRenderer_def Let_def trace_simps)

lemma tick_last:
  assumes "counting v t c" "c \<le> 1"
  shows "t \<notin> set (intervals (step v (IntervalFires t)))"
    and "installs (trace (step v (IntervalFires t))) = Suc (installs (trace v))"
    and "mainWindow v = Some False \<Longrightarrow>
         countdown_events (trace (step v (IntervalFires t)))
           = countdown_events (trace v) @ [(c - 1, None)]"
  using assms
  by (simp_all add: counting_def countdownTick_def sendToRenderer_def Let_def trace_simps
        clearAutoInstallTimer_def quitAndInstall_def)

lemma ticks_disabled:
  "t \<notin> set (intervals v) \<Longrightarrow> run v (replicate n (IntervalFires t)) = v"
  by (induction n) auto

lemma ticks_run:
  "counting v t (int (Suc c)) \<Longrightarrow>
     installs (trace (run v (replicate n (IntervalFires t))))
       = installs (trace v) + (if Suc c \<le> n then 1 else 0)
     \<and> (mainWindow v = Some False \<longrightarrow>
          countdown_events (trace (run v (replicate n (IntervalFires t))))
            = countdown_events (trace v) @ ticks_down (int (Suc c)) (min n (Suc c)))"
proof (induction n arbitrary: v c)
  case 0
  then show ?case by simp
next
  case (Suc n)
  let ?v1 = "step v (IntervalFires t)"
  show ?case
  proof (cases c)
    case 0
    with Suc.prems have cnt: "counting v t 1" by simp
    have d: "run ?v1 (replicate n (IntervalFires t)) = ?v1"
      using tick_last(1)[OF cnt] by (simp add: ticks_disabled)
    show ?thesis
      using 0 d tick_last(2,3)[OF cnt] by simp
  next
    case (Suc c')
    with Suc.prems have cnt: "counting v t (int (Suc (Suc c')))" by simp
    have lt: "1 < int (Suc (Suc c'))" by simp
    have c1: "counting ?v1 t (int (Suc c'))"
      using tick_more(1)[OF cnt lt] by simp
    note ih = Suc.IH[OF c1]
    show ?thesis
      using ih tick_more(2,3,4)[OF cnt lt] Suc by simp
  qed
qed


lemma start_counting:
  "counting (startAutoInstallCountdown u) (nextId u) 5"
  "installs (trace (startAutoInstallCountdown u)) = installs (trace u)"
  "mainWindow (startAutoInstallCountdown u) = mainWindow u"
  "mainWindow u = Some False \<Longrightarrow>
     countdown_events (trace (startAutoInstallCountdown u))
       = countdown_events (trace u) @ [(5, None)]"
  by (simp_all add: counting_def startAutoInstallCountdown_def clearAutoInstallTimer_def
        sendToRenderer_def AUTO_INSTALL_DELAY_SECONDS_def Let_def trace_simps
        split: option.splits)

lemma ticks_down_decreasing: "sorted_wrt (\<lambda>a b. fst a > fst b) (seconds_down c n)"
proof -
  have lt: "\<forall>p \<in> set (ticks_down c n). fst p < c" for c n
  proof (induction n arbitrary: c)
    case 0 show ?case by simp
  next
    case (Suc n)
    have "\<forall>p \<in> set (ticks_down (c - 1) n). fst p < c - 1" by (rule Suc.IH)
    then show ?case by auto
  qed
  have "sorted_wrt (\<lambda>a b. fst a > fst b) (ticks_down c n)" for c n
  proof (induction n arbitrary: c)
    case 0 show ?case by simp
  next
    case (Suc n)
    from lt[of "c - 1" n] Suc.IH[of "c - 1"] show ?case by auto
  qed
  with lt[of c n] show ?thesis by (auto simp: seconds_down_def)
qed

lemma countdown_parts:
  fixes u :: updater and n :: nat
  defines "u0 \<equiv> startAutoInstallCountdown u"
  defines "un \<equiv> run (startAutoInstallCountdown u) (replicate n (IntervalFires (nextId u)))"
  shows "autoInstallCountdown u0 = AUTO_INSTALL_DELAY_SECONDS"
    and "AUTO_INSTALL_DELAY_SECONDS = 5"
    and "mainWindow u = Some False \<Longrightarrow>
           countdown_events (trace u0) = countdown_events (trace u) @ [(5, None)]"
    and "mainWindow u = Some False \<Longrightarrow>
           countdown_events (trace un) = countdown_events (trace u) @ seconds_down 5 (min n 5)"
    and "sorted_wrt (\<lambda>a b. fst a > fst b) (seconds_down 5 (min n 5))"
    and "seconds_down 5 5 = [(5, None), (4, None), (3, None), (2, None), (1, None), (0, None)]"
    and "installs (trace un) = installs (trace u) + (if 5 \<le> n then 1 else 0)"
proof -
  have c: "counting u0 (nextId u) (int (Suc 4))"
    unfolding u0_def using start_counting(1)[of u] by simp
  note r = ticks_run[OF c, of n]
  show "autoInstallCountdown u0 = AUTO_INSTALL_DELAY_SECONDS"
    using start_counting(1)[of u]
    by (simp add: u0_def counting_def AUTO_INSTALL_DELAY_SECONDS_def)
  show "AUTO_INSTALL_DELAY_SECONDS = 5" by (simp add: AUTO_INSTALL_DELAY_SECONDS_def)
  show "countdown_events (trace u0) = countdown_events (trace u) @ [(5, None)]"
    if "mainWindow u = Some False"
    unfolding u0_def using that by (rule start_counting(4))
  show "countdown_events (trace un) = countdown_events (trace u) @ seconds_down 5 (min n 5)"
    if w: "mainWindow u = Some False"
  proof -
    have "mainWindow u0 = Some False" unfolding u0_def using w by (simp add: start_counting(3))
    with r have "countdown_events (trace un)
        = countdown_events (trace u0) @ ticks_down 5 (min n 5)"
      by (simp add: un_def u0_def)
    then show ?thesis
      using start_counting(4)[OF w] by (simp add: u0_def seconds_down_def)
  qed
  show "sorted_wrt (\<lambda>a b. fst a > fst b) (seconds_down 5 (min n 5))"
    by (rule ticks_down_decreasing)
  show "seconds_down 5 5 = [(5, None), (4, None), (3, None), (2, None), (1, None), (0, None)]"
    by (simp add: seconds_down_def eval_nat_numeral)
  show "installs (trace un) = installs (trace u) + (if 5 \<le> n then 1 else 0)"
    using r start_counting(2)[of u] by (simp add: un_def u0_def)
qed

text \<open>
  Claim C2. \<^verbatim>\<open>startAutoInstallCountdown\<close> sets the remaining seconds to the fixed delay,
  which is 5, and publishes it; a renderer window being attached, the countdown events
  published by the start and the next \<open>n\<close> ticks of its timer are
  \<open>5, 4, \<dots>, 5 - n\<close>, and \<open>5, 4, 3, 2, 1, 0\<close> from the fifth tick on, a strictly
  decreasing sequence; \<^verbatim>\<open>autoUpdater.quitAndInstall\<close> is not called by the first four
  ticks and is called once by the fifth, which publishes 0; the timer is cleared then,
  so later ticks do not happen.
\<close>

theorem countdown_publishes_and_installs_once:
  "autoInstallCountdown (startAutoInstallCountdown u) = AUTO_INSTALL_DELAY_SECONDS
   \<and> AUTO_INSTALL_DELAY_SECONDS = 5
   \<and> (mainWindow u = Some False \<longrightarrow>
        countdown_events (trace (startAutoInstallCountdown u))
          = countdown_events (trace u) @ [(5, None)]
        \<and> countdown_events
            (trace (run (startAutoInstallCountdown u) (replicate n (IntervalFires (nextId u)))))
          = countdown_events (trace u) @ seconds_down 5 (min n 5))
   \<and> sorted_wrt (\<lambda>a b. fst a > fst b) (seconds_down 5 (min n 5))
   \<and> seconds_down 5 5 = [(5, None), (4, None), (3, None), (2, None), (1, None), (0, None)]
   \<and> installs
        (trace (run (startAutoInstallCountdown u) (replicate n (IntervalFires (nextId u)))))
      = installs (trace u) + (if 5 \<le> n then 1 else 0)"
proof -
  note p = countdown_parts
  from p(3,4) have "mainWindow u = Some False \<longrightarrow>
        countdown_events (trace (startAutoInstallCountdown u))
          = countdown_events (trace u) @ [(5, None)]
        \<and> countdown_events
            (trace (run (startAutoInstallCountdown u) (replicate n (IntervalFires (nextId u)))))
          = countdown_events (trace u) @ seconds_down 5 (min n 5)"
    by blast
  with p(1,2,5,6,7) show ?thesis by blast
qed

theorem countdown_publishes_and_installs_once_witness:
  "mainWindow (step (init False) (SetMainWindow False)) = Some False
   \<and> countdown_events
     (trace (run (startAutoInstallCountdown (step (init False) (SetMainWindow False)))
               (replicate 7 (IntervalFires 0))))
     = [(5, None), (4, None), (3, None), (2, None), (1, None), (0, None)]
   \<and> installs
     (trace (run (startAutoInstallCountdown (step (init False) (SetMainWindow False)))
               (replicate 7 (IntervalFires 0)))) = 1"
proof -
  have w: "mainWindow (step (init False) (SetMainWindow False)) = Some False"
    by (simp add: init_def)
  have n: "nextId (step (init False) (SetMainWindow False)) = 0"
    by (simp add: init_def)
  have t: "trace (step (init False) (SetMainWindow False)) = []"
    by (simp add: init_def)
  note th = countdown_publishes_and_installs_once
         [of "step (init False) (SetMainWindow False)" 7, unfolded n t]
  have e: "countdown_events
     (trace (run (startAutoInstallCountdown (step (init False) (SetMainWindow False)))
               (replicate 7 (IntervalFires 0))))
       = countdown_events [] @ seconds_down 5 (min 7 5)"
    using th w by blast
  have s: "seconds_down 5 5
             = [(5, None), (4, None), (3, None), (2, None), (1, None), (0, None)]"
    using th by blast
  have i: "installs
     (trace (run (startAutoInstallCountdown (step (init False) (SetMainWindow False)))
               (replicate 7 (IntervalFires 0))))
     = installs [] + (if (5::nat) \<le> 7 then 1 else 0)"
    using th by blast
  from e s have e': "countdown_events
     (trace (run (startAutoInstallCountdown (step (init False) (SetMainWindow False)))
               (replicate 7 (IntervalFires 0))))
     = [(5, None), (4, None), (3, None), (2, None), (1, None), (0, None)]"
    by simp
  from i have i': "installs
     (trace (run (startAutoInstallCountdown (step (init False) (SetMainWindow False)))
               (replicate 7 (IntervalFires 0)))) = 1"
    by (simp add: installs_def)
  from w e' i' show ?thesis by blast
qed

section \<open>Timers of reachable states, cancellation, overlapping cycles\<close>

lemma bound_mono:
  "list_all (\<lambda>(i, k). i < n) ts \<Longrightarrow> n \<le> m \<Longrightarrow> list_all (\<lambda>(i, k). i < (m::nat)) ts"
  by (induction ts) auto

lemma bound_filter:
  "list_all (\<lambda>(i, k). i < n) ts \<Longrightarrow> list_all (\<lambda>(i, k). i < (n::nat)) (filter P ts)"
  by (induction ts) auto

lemma ok_sendToRenderer: "timers_ok u \<Longrightarrow> timers_ok (sendToRenderer u m)"
  by (simp add: timers_ok_def sendToRenderer_def)

lemma ok_updateStatus: "timers_ok u \<Longrightarrow> timers_ok (updateStatus u p)"
  by (simp add: timers_ok_def updateStatus_def sendToRenderer_def Let_def)

lemma ok_clearAutoInstallTimer: "timers_ok u \<Longrightarrow> timers_ok (clearAutoInstallTimer u)"
  by (simp add: timers_ok_def clearAutoInstallTimer_def split: option.splits)

lemma ok_clearSquirrelFallbackTimer:
  "timers_ok u \<Longrightarrow> timers_ok (clearSquirrelFallbackTimer u)"
  by (simp add: timers_ok_def clearSquirrelFallbackTimer_def bound_filter split: option.splits)

lemma ok_quitAndInstall: "timers_ok u \<Longrightarrow> timers_ok (quitAndInstall u)"
  by (auto simp: timers_ok_def quitAndInstall_def Let_def elim: bound_mono)

lemma ok_startAutoInstallCountdown:
  "timers_ok u \<Longrightarrow> timers_ok (startAutoInstallCountdown u)"
  by (auto simp: timers_ok_def startAutoInstallCountdown_def clearAutoInstallTimer_def
        sendToRenderer_def Let_def split: option.splits elim: bound_mono)

lemma ok_countdownTick: "timers_ok u \<Longrightarrow> timers_ok (countdownTick u)"
proof -
  assume ok: "timers_ok u"
  let ?u1 = "u\<lparr>autoInstallCountdown := autoInstallCountdown u - 1\<rparr>"
  have "timers_ok ?u1" using ok by (simp add: timers_ok_def)
  then have "timers_ok (sendToRenderer ?u1 m)" for m by (rule ok_sendToRenderer)
  then show ?thesis
    by (simp add: countdownTick_def Let_def ok_quitAndInstall ok_clearAutoInstallTimer)
qed

lemma ok_onReady: "timers_ok u \<Longrightarrow> timers_ok (onReady u)"
  by (simp add: onReady_def Let_def ok_clearSquirrelFallbackTimer ok_startAutoInstallCountdown)

lemma ok_fold_onReady: "timers_ok u \<Longrightarrow> timers_ok (foldl (\<lambda>s l. onReady s) u ls)"
  by (induction ls arbitrary: u) (simp_all add: ok_onReady)

lemma ok_fallbackFired: "timers_ok u \<Longrightarrow> timers_ok (fallbackFired u w)"
proof -
  assume ok: "timers_ok u"
  let ?u2 = "u\<lparr>squirrelFallbackTimer := None,
                onReadyListeners := removeAll w (onReadyListeners u)\<rparr>"
  have "timers_ok ?u2" using ok by (simp add: timers_ok_def)
  then show ?thesis
    using ok_startAutoInstallCountdown[of ?u2] by (simp add: fallbackFired_def Let_def)
qed

lemma ok_wait: "timers_ok u \<Longrightarrow> timers_ok (waitForSquirrelThenAutoInstall u)"
  by (auto simp: timers_ok_def waitForSquirrelThenAutoInstall_def Let_def elim: bound_mono)

lemma ok_cancelAutoInstall: "timers_ok u \<Longrightarrow> timers_ok (cancelAutoInstall u)"
proof -
  assume ok: "timers_ok u"
  have "timers_ok (u\<lparr>autoInstallCancelled := True\<rparr>)" using ok by (simp add: timers_ok_def)
  then show ?thesis
    by (simp add: cancelAutoInstall_def Let_def ok_sendToRenderer ok_clearAutoInstallTimer
          ok_clearSquirrelFallbackTimer)
qed

lemma ok_onUpdateDownloaded: "timers_ok u \<Longrightarrow> timers_ok (onUpdateDownloaded u ev)"
  by (simp add: onUpdateDownloaded_def Let_def ok_updateStatus ok_wait
        ok_startAutoInstallCountdown)

lemma ok_onNativeUpdateDownloaded: "timers_ok u \<Longrightarrow> timers_ok (onNativeUpdateDownloaded u)"
proof -
  assume ok: "timers_ok u"
  let ?u1 = "if darwin u then u\<lparr>nativeSquirrelReady := True\<rparr> else u"
  have "timers_ok (?u1\<lparr>onReadyListeners := []\<rparr>)" using ok by (simp add: timers_ok_def)
  then show ?thesis
    unfolding onNativeUpdateDownloaded_def Let_def by (rule ok_fold_onReady)
qed

lemma ok_timeoutFires: "timers_ok u \<Longrightarrow> timers_ok (timeoutFires u t)"
proof -
  assume ok: "timers_ok u"
  let ?u1 = "u\<lparr>timeouts := filter (\<lambda>(i, k). i \<noteq> t) (timeouts u)\<rparr>"
  have ok1: "timers_ok ?u1" using ok by (simp add: timers_ok_def bound_filter)
  have "timers_ok (?u1\<lparr>trace := trace ?u1 @ [AppQuit]\<rparr>)"
    using ok1 by (simp add: timers_ok_def)
  with ok ok_fallbackFired[OF ok1] show ?thesis
    by (simp add: timeoutFires_def Let_def split: option.splits timeout_kind.splits)
qed

lemma ok_checkSettled: "timers_ok u \<Longrightarrow> timers_ok (fst (checkSettled u outcome))"
  by (simp add: checkSettled_def ok_updateStatus split: check_outcome.splits option.splits)

lemma ok_step: "timers_ok u \<Longrightarrow> timers_ok (step u e)"
proof (cases e)
  case (SetMainWindow d)
  assume "timers_ok u" with SetMainWindow show ?thesis by (simp add: timers_ok_def)
next
  case (SetAutoDownload b)
  assume "timers_ok u" with SetAutoDownload show ?thesis by (simp add: timers_ok_def)
qed (simp_all add: ok_updateStatus ok_onUpdateDownloaded ok_onNativeUpdateDownloaded
       ok_countdownTick ok_timeoutFires ok_cancelAutoInstall ok_quitAndInstall ok_checkSettled)

lemma ok_run: "timers_ok u \<Longrightarrow> timers_ok (run u es)"
  by (induction es arbitrary: u) (simp_all add: ok_step)

lemma ok_init: "timers_ok (init d)"
  by (simp add: timers_ok_def init_def)

lemma ok_reachable: "timers_ok (run (init d) es)"
  using ok_init by (rule ok_run)


lemma quiet_sendToRenderer_status:
  "cancelled_idle u \<Longrightarrow>
     cancelled_idle (sendToRenderer u (StatusChanged s))
     \<and> observed (sendToRenderer u (StatusChanged s)) = observed u"
  by (simp add: cancelled_idle_def observed_def sendToRenderer_def trace_simps)

lemma quiet_updateStatus:
  "cancelled_idle u \<Longrightarrow>
     cancelled_idle (updateStatus u p) \<and> observed (updateStatus u p) = observed u"
  by (simp add: cancelled_idle_def observed_def updateStatus_def sendToRenderer_def Let_def
        trace_simps)

lemma quiet_onReady:
  "cancelled_idle u \<Longrightarrow> cancelled_idle (onReady u) \<and> observed (onReady u) = observed u"
  by (simp add: cancelled_idle_def observed_def onReady_def clearSquirrelFallbackTimer_def
        Let_def trace_simps split: option.splits)

lemma quiet_fold_onReady:
  "cancelled_idle u \<Longrightarrow>
     cancelled_idle (foldl (\<lambda>s l. onReady s) u ls)
     \<and> observed (foldl (\<lambda>s l. onReady s) u ls) = observed u"
proof (induction ls arbitrary: u)
  case Nil
  then show ?case by simp
next
  case (Cons l ls)
  from quiet_onReady[OF Cons.prems] Cons.IH[of "onReady u"] show ?case by simp
qed

lemma quiet_onNativeUpdateDownloaded:
  assumes "cancelled_idle u"
  shows "cancelled_idle (onNativeUpdateDownloaded u)
     \<and> observed (onNativeUpdateDownloaded u) = observed u"
proof -
  let ?u2 = "(if darwin u then u\<lparr>nativeSquirrelReady := True\<rparr> else u)\<lparr>onReadyListeners := []\<rparr>"
  have k: "cancelled_idle ?u2" and o: "observed ?u2 = observed u"
    using assms by (simp_all add: cancelled_idle_def observed_def)
  from quiet_fold_onReady[OF k, of "onReadyListeners u"] o show ?thesis
    by (simp add: onNativeUpdateDownloaded_def Let_def split: if_splits)
qed

lemma quiet_timeoutFires:
  "cancelled_idle u \<Longrightarrow>
     cancelled_idle (timeoutFires u t) \<and> observed (timeoutFires u t) = observed u"
  by (simp add: cancelled_idle_def observed_def timeoutFires_def fallbackFired_def Let_def
        trace_simps split: option.splits timeout_kind.splits)

lemma quiet_checkSettled:
  "cancelled_idle u \<Longrightarrow>
     cancelled_idle (fst (checkSettled u outcome))
     \<and> observed (fst (checkSettled u outcome)) = observed u"
  by (simp add: checkSettled_def quiet_updateStatus split: check_outcome.splits option.splits)

lemma quiet_step:
  assumes "cancelled_idle u" "same_cycle e"
  shows "cancelled_idle (step u e) \<and> observed (step u e) = observed u"
proof (cases e)
  case (IntervalFires t)
  with assms show ?thesis by (simp add: cancelled_idle_def)
next
  case (SetMainWindow d)
  with assms show ?thesis by (simp add: cancelled_idle_def observed_def)
next
  case (SetAutoDownload b)
  with assms show ?thesis by (simp add: cancelled_idle_def observed_def)
qed (use assms in \<open>simp_all add: quiet_updateStatus quiet_onNativeUpdateDownloaded
       quiet_timeoutFires quiet_checkSettled\<close>)

lemma quiet_run:
  "cancelled_idle u \<Longrightarrow> list_all same_cycle es \<Longrightarrow>
     cancelled_idle (run u es) \<and> observed (run u es) = observed u"
proof (induction es arbitrary: u)
  case Nil
  then show ?case by simp
next
  case (Cons e es)
  from Cons.prems have k: "cancelled_idle u" and e: "same_cycle e" and es: "list_all same_cycle es"
    by simp_all
  from quiet_step[OF k e] Cons.IH[of "step u e"] es show ?case by simp
qed

lemma cancel_from_counting:
  assumes "timers_ok u"
  shows "cancelled_idle (cancelAutoInstall u)"
    and "installs (trace (cancelAutoInstall u)) = installs (trace u)"
    and "mainWindow u = Some False \<Longrightarrow>
           countdown_events (trace (cancelAutoInstall u))
             = countdown_events (trace u) @ [(- 1, Some True)]"
  using assms
  by (simp_all add: timers_ok_def cancelled_idle_def cancelAutoInstall_def
        clearSquirrelFallbackTimer_def clearAutoInstallTimer_def sendToRenderer_def Let_def
        trace_simps split: option.splits)

text \<open>
  Claim C3. Take any state the updater can reach in which a countdown is running, and
  cancel there. Whatever happens afterwards within the same cycle (timers firing,
  the native signal, status events, a check ending; no new downloaded event and no
  request by hand): no countdown timer is pending, \<^verbatim>\<open>autoUpdater.quitAndInstall\<close> is
  not called, and the countdown events published to an attached window are the earlier
  ones followed by exactly one \<^verbatim>\<open>{ seconds: -1, cancelled: true }\<close>.
\<close>

theorem cancel_stops_countdown:
  "autoInstallTimer (run (init d) before) = Some t \<and> list_all same_cycle later \<longrightarrow>
     installs (trace (run (cancelAutoInstall (run (init d) before)) later))
       = installs (trace (run (init d) before))
     \<and> intervals (run (cancelAutoInstall (run (init d) before)) later) = []
     \<and> (mainWindow (run (init d) before) = Some False \<longrightarrow>
          countdown_events (trace (run (cancelAutoInstall (run (init d) before)) later))
            = countdown_events (trace (run (init d) before)) @ [(- 1, Some True)])"
proof (intro impI, elim conjE)
  let ?u = "run (init d) before"
  assume sc: "list_all same_cycle later"
  have ok: "timers_ok ?u" by (rule ok_reachable)
  note c = cancel_from_counting[OF ok]
  from quiet_run[OF c(1) sc]
  have k: "cancelled_idle (run (cancelAutoInstall ?u) later)"
    and o: "observed (run (cancelAutoInstall ?u) later) = observed (cancelAutoInstall ?u)"
    by simp_all
  from o have i: "installs (trace (run (cancelAutoInstall ?u) later)) = installs (trace ?u)"
    using c(2) by (simp add: observed_def)
  from o have e: "countdown_events (trace (run (cancelAutoInstall ?u) later))
       = countdown_events (trace ?u) @ [(- 1, Some True)]" if "mainWindow ?u = Some False"
    using c(3)[OF that] by (simp add: observed_def)
  from k have n: "intervals (run (cancelAutoInstall ?u) later) = []"
    by (simp add: cancelled_idle_def)
  from i e n show "installs (trace (run (cancelAutoInstall ?u) later)) = installs (trace ?u)
     \<and> intervals (run (cancelAutoInstall ?u) later) = []
     \<and> (mainWindow ?u = Some False \<longrightarrow>
          countdown_events (trace (run (cancelAutoInstall ?u) later))
            = countdown_events (trace ?u) @ [(- 1, Some True)])"
    by blast
qed


theorem cancel_stops_countdown_witness:
  "autoInstallTimer
     (run (init False)
        [SetMainWindow False, SetAutoDownload True, UpdateDownloaded (UpdateInfo ''2.0.0''),
         IntervalFires 0, IntervalFires 0]) = Some 0
   \<and> list_all same_cycle [IntervalFires 0, NativeUpdateDownloaded, TimeoutFires 0,
         CheckingForUpdate]
   \<and> mainWindow
       (run (init False)
          [SetMainWindow False, SetAutoDownload True, UpdateDownloaded (UpdateInfo ''2.0.0''),
           IntervalFires 0, IntervalFires 0]) = Some False
   \<and> countdown_events
       (trace (run (cancelAutoInstall
                 (run (init False)
                    [SetMainWindow False, SetAutoDownload True,
                     UpdateDownloaded (UpdateInfo ''2.0.0''), IntervalFires 0, IntervalFires 0]))
               [IntervalFires 0, NativeUpdateDownloaded, TimeoutFires 0, CheckingForUpdate]))
       = [(5, None), (4, None), (3, None), (- 1, Some True)]
   \<and> installs
       (trace (run (cancelAutoInstall
                 (run (init False)
                    [SetMainWindow False, SetAutoDownload True,
                     UpdateDownloaded (UpdateInfo ''2.0.0''), IntervalFires 0, IntervalFires 0]))
               [IntervalFires 0, NativeUpdateDownloaded, TimeoutFires 0, CheckingForUpdate]))
       = 0"
proof -
  let ?before = "[SetMainWindow False, SetAutoDownload True,
    UpdateDownloaded (UpdateInfo ''2.0.0''), IntervalFires 0, IntervalFires 0]"
  let ?later = "[IntervalFires 0, NativeUpdateDownloaded, TimeoutFires 0, CheckingForUpdate]"
  have h1: "autoInstallTimer (run (init False) ?before) = Some 0" by code_simp
  have h2: "list_all same_cycle ?later" by simp
  have h3: "mainWindow (run (init False) ?before) = Some False" by code_simp
  have e0: "countdown_events (trace (run (init False) ?before))
              = [(5, None), (4, None), (3, None)]" by code_simp
  have i0: "installs (trace (run (init False) ?before)) = 0" by code_simp
  from cancel_stops_countdown [of False ?before 0 ?later] h1 h2 h3
  have "installs (trace (run (cancelAutoInstall (run (init False) ?before)) ?later))
          = installs (trace (run (init False) ?before))
        \<and> countdown_events (trace (run (cancelAutoInstall (run (init False) ?before)) ?later))
          = countdown_events (trace (run (init False) ?before)) @ [(- 1, Some True)]"
    by blast
  with h1 h2 h3 show ?thesis unfolding e0 i0 by simp
qed

text \<open>
  Claim C4 at its failing input. On macOS with automatic download on, two
  \<^verbatim>\<open>update-downloaded\<close> events arrive before the native signal. The second call of
  \<^verbatim>\<open>waitForSquirrelThenAutoInstall\<close> overwrites the handle of the first fallback timer
  without clearing it: both fallback timers are pending, and the updater holds the
  handle of the second only, so that a cancellation clears the second and leaves the
  first pending. When the native signal stays away, each of them starts a countdown
  once the other's has run out, and \<^verbatim>\<open>autoUpdater.quitAndInstall\<close> is called twice.
\<close>

theorem overlapping_cycles_leak_fallback_timer:
  "timeouts
     (run (init True)
        [SetAutoDownload True, UpdateDownloaded (UpdateInfo ''2.0.0''),
         UpdateDownloaded (UpdateInfo ''2.0.0'')])
     = [(0, StagingFallback), (1, StagingFallback)]
   \<and> squirrelFallbackTimer
     (run (init True)
        [SetAutoDownload True, UpdateDownloaded (UpdateInfo ''2.0.0''),
         UpdateDownloaded (UpdateInfo ''2.0.0'')]) = Some 1
   \<and> timeouts
     (run (init True)
        [SetAutoDownload True, UpdateDownloaded (UpdateInfo ''2.0.0''),
         UpdateDownloaded (UpdateInfo ''2.0.0''), CancelAutoInstall])
     = [(0, StagingFallback)]
   \<and> installs
     (trace (run (init True)
        [SetAutoDownload True, UpdateDownloaded (UpdateInfo ''2.0.0''),
         UpdateDownloaded (UpdateInfo ''2.0.0''),
         TimeoutFires 0,
         IntervalFires 2, IntervalFires 2, IntervalFires 2, IntervalFires 2, IntervalFires 2,
         TimeoutFires 1,
         IntervalFires 4, IntervalFires 4, IntervalFires 4, IntervalFires 4, IntervalFires 4]))
     = 2"
  by code_simp

text \<open>The countdown timer, for its part, is cleared before it is replaced: in every
  reachable state at most one is pending.\<close>

lemma one_countdown_timer: "length (intervals (run (init d) es)) \<le> 1"
  using ok_reachable [of d es] by (simp add: timers_ok_def split: option.splits)

section \<open>The staging wait\<close>

lemma all_filter: "list_all P ts \<Longrightarrow> list_all P (filter Q ts)"
  by (induction ts) auto

lemma retired_sendToRenderer: "retired u w \<Longrightarrow> retired (sendToRenderer u m) w"
  by (simp add: retired_def sendToRenderer_def)

lemma retired_updateStatus: "retired u w \<Longrightarrow> retired (updateStatus u p) w"
  by (simp add: retired_def updateStatus_def sendToRenderer_def Let_def)

lemma retired_clearAutoInstallTimer: "retired u w \<Longrightarrow> retired (clearAutoInstallTimer u) w"
  by (simp add: retired_def clearAutoInstallTimer_def split: option.splits)

lemma retired_clearSquirrelFallbackTimer:
  "retired u w \<Longrightarrow> retired (clearSquirrelFallbackTimer u) w"
  by (simp add: retired_def clearSquirrelFallbackTimer_def all_filter split: option.splits)

lemma retired_quitAndInstall: "retired u w \<Longrightarrow> retired (quitAndInstall u) w"
  by (auto simp: retired_def quitAndInstall_def Let_def)

lemma retired_startAutoInstallCountdown:
  "retired u w \<Longrightarrow> retired (startAutoInstallCountdown u) w"
  by (auto simp: retired_def startAutoInstallCountdown_def clearAutoInstallTimer_def
        sendToRenderer_def Let_def split: option.splits)

lemma retired_countdownTick: "retired u w \<Longrightarrow> retired (countdownTick u) w"
proof -
  assume r: "retired u w"
  let ?u1 = "u\<lparr>autoInstallCountdown := autoInstallCountdown u - 1\<rparr>"
  have "retired ?u1 w" using r by (simp add: retired_def)
  then have "retired (sendToRenderer ?u1 m) w" for m by (rule retired_sendToRenderer)
  then show ?thesis
    by (simp add: countdownTick_def Let_def retired_quitAndInstall
          retired_clearAutoInstallTimer)
qed

lemma retired_onReady: "retired u w \<Longrightarrow> retired (onReady u) w"
  by (simp add: onReady_def Let_def retired_clearSquirrelFallbackTimer
        retired_startAutoInstallCountdown)

lemma retired_fold_onReady: "retired u w \<Longrightarrow> retired (foldl (\<lambda>s l. onReady s) u ls) w"
  by (induction ls arbitrary: u) (simp_all add: retired_onReady)

lemma retired_fallbackFired: "retired u w \<Longrightarrow> retired (fallbackFired u x) w"
proof -
  assume r: "retired u w"
  let ?u2 = "u\<lparr>squirrelFallbackTimer := None,
                onReadyListeners := removeAll x (onReadyListeners u)\<rparr>"
  have "retired ?u2 w" using r by (simp add: retired_def)
  then show ?thesis
    using retired_startAutoInstallCountdown[of ?u2 w] by (simp add: fallbackFired_def Let_def)
qed

lemma retired_wait: "retired u w \<Longrightarrow> retired (waitForSquirrelThenAutoInstall u) w"
  by (auto simp: retired_def waitForSquirrelThenAutoInstall_def Let_def)

lemma retired_cancelAutoInstall: "retired u w \<Longrightarrow> retired (cancelAutoInstall u) w"
proof -
  assume r: "retired u w"
  have "retired (u\<lparr>autoInstallCancelled := True\<rparr>) w" using r by (simp add: retired_def)
  then show ?thesis
    by (simp add: cancelAutoInstall_def Let_def retired_sendToRenderer
          retired_clearAutoInstallTimer retired_clearSquirrelFallbackTimer)
qed

lemma retired_onUpdateDownloaded: "retired u w \<Longrightarrow> retired (onUpdateDownloaded u ev) w"
  by (simp add: onUpdateDownloaded_def Let_def retired_updateStatus retired_wait
        retired_startAutoInstallCountdown)

lemma retired_onNativeUpdateDownloaded:
  "retired u w \<Longrightarrow> retired (onNativeUpdateDownloaded u) w"
proof -
  assume r: "retired u w"
  let ?u1 = "if darwin u then u\<lparr>nativeSquirrelReady := True\<rparr> else u"
  have "retired (?u1\<lparr>onReadyListeners := []\<rparr>) w" using r by (simp add: retired_def)
  then show ?thesis
    unfolding onNativeUpdateDownloaded_def Let_def by (rule retired_fold_onReady)
qed

lemma retired_timeoutFires: "retired u w \<Longrightarrow> retired (timeoutFires u t) w"
proof -
  assume r: "retired u w"
  let ?u1 = "u\<lparr>timeouts := filter (\<lambda>(i, k). i \<noteq> t) (timeouts u)\<rparr>"
  have r1: "retired ?u1 w" using r by (simp add: retired_def all_filter)
  have "retired (?u1\<lparr>trace := trace ?u1 @ [AppQuit]\<rparr>) w"
    using r1 by (simp add: retired_def)
  with r retired_fallbackFired[OF r1] show ?thesis
    by (simp add: timeoutFires_def Let_def split: option.splits timeout_kind.splits)
qed

lemma retired_checkSettled: "retired u w \<Longrightarrow> retired (fst (checkSettled u outcome)) w"
  by (simp add: checkSettled_def retired_updateStatus
        split: check_outcome.splits option.splits)

lemma retired_step: "retired u w \<Longrightarrow> retired (step u e) w"
proof (cases e)
  case (SetMainWindow d)
  assume "retired u w" with SetMainWindow show ?thesis by (simp add: retired_def)
next
  case (SetAutoDownload b)
  assume "retired u w" with SetAutoDownload show ?thesis by (simp add: retired_def)
qed (simp_all add: retired_updateStatus retired_onUpdateDownloaded
       retired_onNativeUpdateDownloaded retired_countdownTick retired_timeoutFires
       retired_cancelAutoInstall retired_quitAndInstall retired_checkSettled)

lemma retired_run: "retired u w \<Longrightarrow> retired (run u es) w"
  by (induction es arbitrary: u) (simp_all add: retired_step)

lemma map_of_absent: "list_all (\<lambda>(i, k). i \<noteq> w) ts \<Longrightarrow> map_of ts w = None"
  by (induction ts) auto

text \<open>
  A timeout that is not pending does not call back, and a handle is never handed out
  twice: once cleared or fired, a timer stays away.
\<close>

lemma retired_never_fires: "retired u w \<Longrightarrow> step u (TimeoutFires w) = u"
  by (simp add: retired_def timeoutFires_def map_of_absent)

text \<open>Listeners are added by a downloaded event only.\<close>

lemma listeners_onReady: "onReadyListeners (onReady u) = onReadyListeners u"
  by (simp add: onReady_def clearSquirrelFallbackTimer_def startAutoInstallCountdown_def
        clearAutoInstallTimer_def sendToRenderer_def Let_def split: option.splits)

lemma listeners_fold_onReady:
  "onReadyListeners (foldl (\<lambda>s l. onReady s) u ls) = onReadyListeners u"
  by (induction ls arbitrary: u) (simp_all add: listeners_onReady)

lemma no_listeners_step:
  assumes "onReadyListeners u = []" "same_cycle e"
  shows "onReadyListeners (step u e) = []"
proof (cases e)
  case NativeUpdateDownloaded
  then show ?thesis
    by (simp add: onNativeUpdateDownloaded_def Let_def listeners_fold_onReady)
next
  case (IntervalFires t)
  with assms show ?thesis
    by (simp add: countdownTick_def quitAndInstall_def clearAutoInstallTimer_def
          sendToRenderer_def Let_def split: option.splits)
next
  case (TimeoutFires t)
  with assms show ?thesis
    by (simp add: timeoutFires_def fallbackFired_def startAutoInstallCountdown_def
          clearAutoInstallTimer_def sendToRenderer_def Let_def
          split: option.splits timeout_kind.splits)
next
  case (CheckSettles outcome)
  with assms show ?thesis
    by (simp add: checkSettled_def updateStatus_def sendToRenderer_def Let_def
          split: check_outcome.splits option.splits)
qed (use assms in \<open>simp_all add: updateStatus_def sendToRenderer_def Let_def\<close>)

lemma no_listeners_run:
  "onReadyListeners u = [] \<Longrightarrow> list_all same_cycle es \<Longrightarrow> onReadyListeners (run u es) = []"
  by (induction es arbitrary: u) (simp_all add: no_listeners_step)

lemma native_without_listeners:
  "onReadyListeners u = [] \<Longrightarrow>
     trace (step u NativeUpdateDownloaded) = trace u
     \<and> intervals (step u NativeUpdateDownloaded) = intervals u
     \<and> autoInstallTimer (step u NativeUpdateDownloaded) = autoInstallTimer u
     \<and> autoInstallCountdown (step u NativeUpdateDownloaded) = autoInstallCountdown u"
  by (simp add: onNativeUpdateDownloaded_def Let_def)


lemma map_of_fresh: "list_all (\<lambda>(i, k). i < w) ts \<Longrightarrow> map_of ts (w::nat) = None"
  by (induction ts) auto

lemma all_filter_self: "list_all (\<lambda>(i, k). i \<noteq> w) (filter (\<lambda>(i, k). i \<noteq> w) ts)"
  by (induction ts) auto

lemma wait_entered:
  assumes "timers_ok u" "autoDownload u" "darwin u" "\<not> nativeSquirrelReady u"
  shows "squirrelFallbackTimer (step u (UpdateDownloaded ev)) = Some (nextId u)"
    and "timeouts (step u (UpdateDownloaded ev)) = timeouts u @ [(nextId u, StagingFallback)]"
    and "map_of (timeouts (step u (UpdateDownloaded ev))) (nextId u) = Some StagingFallback"
    and "onReadyListeners (step u (UpdateDownloaded ev)) = onReadyListeners u @ [nextId u]"
    and "countdown_starts (trace (step u (UpdateDownloaded ev))) = countdown_starts (trace u)"
    and "installs (trace (step u (UpdateDownloaded ev))) = installs (trace u)"
    and "autoInstallTimer (step u (UpdateDownloaded ev)) = autoInstallTimer u"
    and "intervals (step u (UpdateDownloaded ev)) = intervals u"
    and "\<not> autoInstallCancelled (step u (UpdateDownloaded ev))"
    and "darwin (step u (UpdateDownloaded ev))"
    and "nextId (step u (UpdateDownloaded ev)) = Suc (nextId u)"
    and "mainWindow (step u (UpdateDownloaded ev)) = mainWindow u"
proof -
  from assms(1) have "map_of (timeouts u) (nextId u) = None"
    by (simp add: timers_ok_def map_of_fresh)
  then show "map_of (timeouts (step u (UpdateDownloaded ev))) (nextId u) = Some StagingFallback"
    using assms(2-4)
    by (simp add: onUpdateDownloaded_def updateStatus_def sendToRenderer_def
          waitForSquirrelThenAutoInstall_def Let_def map_add_def)
qed (use assms(2-4) in \<open>simp_all add: onUpdateDownloaded_def updateStatus_def
       sendToRenderer_def waitForSquirrelThenAutoInstall_def Let_def trace_simps\<close>)

lemma native_first:
  assumes "squirrelFallbackTimer v = Some w" "onReadyListeners v = [w]"
    "\<not> autoInstallCancelled v" "w < nextId v" "darwin v"
  shows "countdown_starts (trace (step v NativeUpdateDownloaded)) = Suc (countdown_starts (trace v))"
    and "counting (step v NativeUpdateDownloaded) (nextId v) 5"
    and "squirrelFallbackTimer (step v NativeUpdateDownloaded) = None"
    and "retired (step v NativeUpdateDownloaded) w"
    and "nativeSquirrelReady (step v NativeUpdateDownloaded)"
    and "installs (trace (step v NativeUpdateDownloaded)) = installs (trace v)"
  using assms
  by (simp_all add: onNativeUpdateDownloaded_def onReady_def clearSquirrelFallbackTimer_def
        startAutoInstallCountdown_def clearAutoInstallTimer_def sendToRenderer_def Let_def
        counting_def retired_def all_filter_self trace_simps AUTO_INSTALL_DELAY_SECONDS_def
        split: option.splits)

lemma fallback_first:
  assumes "map_of (timeouts v) w = Some StagingFallback"
    "\<not> autoInstallCancelled v" "autoInstallTimer v = None"
  shows "countdown_starts (trace (step v (TimeoutFires w))) = Suc (countdown_starts (trace v))"
    and "counting (step v (TimeoutFires w)) (nextId v) 5"
    and "onReadyListeners (step v (TimeoutFires w)) = removeAll w (onReadyListeners v)"
    and "squirrelFallbackTimer (step v (TimeoutFires w)) = None"
    and "installs (trace (step v (TimeoutFires w))) = installs (trace v)"
  using assms
  by (simp_all add: timeoutFires_def fallbackFired_def startAutoInstallCountdown_def
        clearAutoInstallTimer_def sendToRenderer_def Let_def counting_def trace_simps
        AUTO_INSTALL_DELAY_SECONDS_def)

lemma race_core:
  fixes u :: updater and later :: "event list" and ev :: update_info
  assumes ok: "timers_ok u"
    and two_phase: "darwin u" "\<not> nativeSquirrelReady u" and auto: "autoDownload u"
    and idle: "autoInstallTimer u = None" and alone: "onReadyListeners u = []"
  shows "squirrelFallbackTimer (step u (UpdateDownloaded ev)) = Some (nextId u)
       \<and> map_of (timeouts (step u (UpdateDownloaded ev))) (nextId u) = Some StagingFallback
       \<and> countdown_starts (trace (step u (UpdateDownloaded ev))) = countdown_starts (trace u)
       \<and> countdown_starts (trace (run u [UpdateDownloaded ev, NativeUpdateDownloaded]))
           = Suc (countdown_starts (trace u))
       \<and> counting (run u [UpdateDownloaded ev, NativeUpdateDownloaded]) (Suc (nextId u)) 5
       \<and> map_of (timeouts (run u [UpdateDownloaded ev, NativeUpdateDownloaded])) (nextId u) = None
       \<and> step (run u ([UpdateDownloaded ev, NativeUpdateDownloaded] @ later))
              (TimeoutFires (nextId u))
           = run u ([UpdateDownloaded ev, NativeUpdateDownloaded] @ later)
       \<and> countdown_starts (trace (run u [UpdateDownloaded ev, TimeoutFires (nextId u)]))
           = Suc (countdown_starts (trace u))
       \<and> counting (run u [UpdateDownloaded ev, TimeoutFires (nextId u)]) (Suc (nextId u)) 5
       \<and> (list_all same_cycle later \<longrightarrow>
            trace (run u ([UpdateDownloaded ev, TimeoutFires (nextId u)] @ later
                            @ [NativeUpdateDownloaded]))
              = trace (run u ([UpdateDownloaded ev, TimeoutFires (nextId u)] @ later))
            \<and> autoInstallTimer (run u ([UpdateDownloaded ev, TimeoutFires (nextId u)] @ later
                            @ [NativeUpdateDownloaded]))
              = autoInstallTimer (run u ([UpdateDownloaded ev, TimeoutFires (nextId u)] @ later)))"
proof -
  let ?v = "step u (UpdateDownloaded ev)"
  let ?w = "nextId u"
  let ?va = "step ?v NativeUpdateDownloaded"
  let ?vb = "step ?v (TimeoutFires ?w)"
  note e = wait_entered [OF ok auto two_phase, of ev]
  from e(4) alone have l: "onReadyListeners ?v = [?w]" by simp
  from e(11) have lt: "?w < nextId ?v" by simp
  note a = native_first [OF e(1) l e(9) lt e(10)]
  from e(7) idle have i: "autoInstallTimer ?v = None" by simp
  note b = fallback_first [OF e(3) e(9) i]
  from b(3) l have bl: "onReadyListeners ?vb = []" by simp
  from a(4) have ra: "retired (run ?va later) ?w" by (rule retired_run)
  from a(4) have m: "map_of (timeouts ?va) ?w = None" by (simp add: retired_def map_of_absent)
  have n: "trace (step (run ?vb later) NativeUpdateDownloaded) = trace (run ?vb later)
            \<and> autoInstallTimer (step (run ?vb later) NativeUpdateDownloaded)
                = autoInstallTimer (run ?vb later)" if "list_all same_cycle later"
    using native_without_listeners [OF no_listeners_run [OF bl that]] by blast
  have r1: "run u ([UpdateDownloaded ev, NativeUpdateDownloaded] @ later) = run ?va later"
    by simp
  have r2: "run u ([UpdateDownloaded ev, TimeoutFires ?w] @ later) = run ?vb later"
    by simp
  have r3: "run u ([UpdateDownloaded ev, TimeoutFires ?w] @ later @ [NativeUpdateDownloaded])
              = step (run ?vb later) NativeUpdateDownloaded"
    by (simp add: run_append)
  have r4: "run u [UpdateDownloaded ev, NativeUpdateDownloaded] = ?va"
       "run u [UpdateDownloaded ev, TimeoutFires ?w] = ?vb" by simp_all
  show ?thesis
    unfolding r1 r2 r3 r4
    using e(1,3,5) a(1,2) m retired_never_fires[OF ra] b(1,2) n e(11) by simp
qed

text \<open>
  A staging wait on its own. Take any reachable state on macOS with automatic download
  on, the native signal not yet seen, no countdown running and no \<^verbatim>\<open>onReady\<close> of an
  earlier wait still subscribed, and let \<^verbatim>\<open>update-downloaded\<close> arrive. The wait is
  armed and no countdown starts yet. If the native signal comes first, the countdown
  starts then, the fallback timer is cleared, and it never fires, whatever happens
  later. If the fallback timer fires first, the countdown starts then, and a native
  signal after any further events of the same cycle leaves the trace as it is: it
  starts nothing.
\<close>

lemma isolated_wait_race:
  fixes d :: bool and before later :: "event list" and ev :: update_info
  assumes "darwin (run (init d) before)" "\<not> nativeSquirrelReady (run (init d) before)"
    and "autoDownload (run (init d) before)"
    and "autoInstallTimer (run (init d) before) = None"
    and "onReadyListeners (run (init d) before) = []"
  shows "squirrelFallbackTimer (run (init d) (before @ [UpdateDownloaded ev]))
           = Some (nextId (run (init d) before))
       \<and> countdown_starts (trace (run (init d) (before @ [UpdateDownloaded ev])))
           = countdown_starts (trace (run (init d) before))
       \<and> countdown_starts
           (trace (run (init d) (before @ [UpdateDownloaded ev, NativeUpdateDownloaded])))
           = Suc (countdown_starts (trace (run (init d) before)))
       \<and> map_of (timeouts (run (init d) (before @ [UpdateDownloaded ev, NativeUpdateDownloaded])))
           (nextId (run (init d) before)) = None
       \<and> step (run (init d) (before @ [UpdateDownloaded ev, NativeUpdateDownloaded] @ later))
              (TimeoutFires (nextId (run (init d) before)))
           = run (init d) (before @ [UpdateDownloaded ev, NativeUpdateDownloaded] @ later)
       \<and> countdown_starts
           (trace (run (init d)
              (before @ [UpdateDownloaded ev, TimeoutFires (nextId (run (init d) before))])))
           = Suc (countdown_starts (trace (run (init d) before)))
       \<and> (list_all same_cycle later \<longrightarrow>
            trace (run (init d)
              (before @ [UpdateDownloaded ev, TimeoutFires (nextId (run (init d) before))]
                 @ later @ [NativeUpdateDownloaded]))
            = trace (run (init d)
              (before @ [UpdateDownloaded ev, TimeoutFires (nextId (run (init d) before))]
                 @ later)))"
proof -
  have ok: "timers_ok (run (init d) before)" by (rule ok_reachable)
  note c = race_core [OF ok assms, of ev later, unfolded run_append run.simps]
  show ?thesis
    unfolding run_append run.simps using c by blast
qed


lemma isolated_wait_race_example:
  "darwin (run (init True) [SetAutoDownload True])
   \<and> \<not> nativeSquirrelReady (run (init True) [SetAutoDownload True])
   \<and> autoDownload (run (init True) [SetAutoDownload True])
   \<and> autoInstallTimer (run (init True) [SetAutoDownload True]) = None
   \<and> onReadyListeners (run (init True) [SetAutoDownload True]) = []
   \<and> list_all same_cycle [IntervalFires 1, IntervalFires 1]
   \<and> countdown_starts
       (trace (run (init True)
          ([SetAutoDownload True]
             @ [UpdateDownloaded (UpdateInfo ''2.0.0''), NativeUpdateDownloaded]))) = 1
   \<and> countdown_starts
       (trace (run (init True)
          ([SetAutoDownload True]
             @ [UpdateDownloaded (UpdateInfo ''2.0.0''), TimeoutFires 0]))) = 1
   \<and> trace (run (init True)
          ([SetAutoDownload True] @ [UpdateDownloaded (UpdateInfo ''2.0.0''), TimeoutFires 0]
             @ [IntervalFires 1, IntervalFires 1] @ [NativeUpdateDownloaded]))
     = trace (run (init True)
          ([SetAutoDownload True] @ [UpdateDownloaded (UpdateInfo ''2.0.0''), TimeoutFires 0]
             @ [IntervalFires 1, IntervalFires 1]))"
proof -
  let ?u = "run (init True) [SetAutoDownload True]"
  have h: "darwin ?u" "\<not> nativeSquirrelReady ?u" "autoDownload ?u"
    "autoInstallTimer ?u = None" "onReadyListeners ?u = []"
    by (simp_all add: init_def)
  have l: "list_all same_cycle [IntervalFires 1, IntervalFires 1]" by simp
  have n: "nextId ?u = 0" by (simp add: init_def)
  have c: "countdown_starts (trace ?u) = 0" by (simp add: init_def countdown_starts_def)
  note th = isolated_wait_race
    [OF h, of "UpdateInfo ''2.0.0''" "[IntervalFires 1, IntervalFires 1]", unfolded n c]
  from th l h show ?thesis by simp
qed

text \<open>
  Claim C1 at its failing input. \<^verbatim>\<open>cancelAutoInstall\<close> clears the fallback timer of a
  pending wait and leaves its \<^verbatim>\<open>onReady\<close> subscribed, silenced by the flag alone; the
  next call of \<^verbatim>\<open>waitForSquirrelThenAutoInstall\<close> resets the flag. On macOS: downloaded,
  cancel, downloaded again; the second wait's fallback timer fires and starts the
  countdown (5, then 4); the native signal comes a moment later, the first wait's
  \<^verbatim>\<open>onReady\<close> runs and starts the countdown again (5). In the same way, with two
  waits pending and no cancellation, the native signal leaves the first wait's fallback
  timer pending.
\<close>

theorem stale_wait_restarts_countdown:
  "onReadyListeners
     (run (init True)
        [SetMainWindow False, SetAutoDownload True, UpdateDownloaded (UpdateInfo ''2.0.0''),
         CancelAutoInstall]) = [0]
   \<and> countdown_events
     (trace (run (init True)
        [SetMainWindow False, SetAutoDownload True, UpdateDownloaded (UpdateInfo ''2.0.0''),
         CancelAutoInstall, UpdateDownloaded (UpdateInfo ''2.0.1''),
         TimeoutFires 1, IntervalFires 2, NativeUpdateDownloaded]))
     = [(- 1, Some True), (5, None), (4, None), (5, None)]
   \<and> countdown_starts
     (trace (run (init True)
        [SetMainWindow False, SetAutoDownload True, UpdateDownloaded (UpdateInfo ''2.0.0''),
         CancelAutoInstall, UpdateDownloaded (UpdateInfo ''2.0.1'')])) = 0
   \<and> countdown_starts
     (trace (run (init True)
        [SetMainWindow False, SetAutoDownload True, UpdateDownloaded (UpdateInfo ''2.0.0''),
         CancelAutoInstall, UpdateDownloaded (UpdateInfo ''2.0.1''),
         TimeoutFires 1, IntervalFires 2])) = 1
   \<and> countdown_starts
     (trace (run (init True)
        [SetMainWindow False, SetAutoDownload True, UpdateDownloaded (UpdateInfo ''2.0.0''),
         CancelAutoInstall, UpdateDownloaded (UpdateInfo ''2.0.1''),
         TimeoutFires 1, IntervalFires 2, NativeUpdateDownloaded])) = 2
   \<and> timeouts
     (run (init True)
        [SetAutoDownload True, UpdateDownloaded (UpdateInfo ''2.0.0''),
         UpdateDownloaded (UpdateInfo ''2.0.1''), NativeUpdateDownloaded])
     = [(0, StagingFallback)]"
  by code_simp

text \<open>A cancellation and the next downloaded event.\<close>

lemma cancel_facts:
  assumes "timers_ok u"
  shows "timers_ok (cancelAutoInstall u)"
    and "autoInstallTimer (cancelAutoInstall u) = None"
    and "autoInstallCancelled (cancelAutoInstall u)"
    and "darwin (cancelAutoInstall u) = darwin u"
    and "nativeSquirrelReady (cancelAutoInstall u) = nativeSquirrelReady u"
    and "autoDownload (cancelAutoInstall u) = autoDownload u"
    and "nextId (cancelAutoInstall u) = nextId u"
    and "installs (trace (cancelAutoInstall u)) = installs (trace u)"
proof -
  show "timers_ok (cancelAutoInstall u)" using assms by (rule ok_cancelAutoInstall)
qed (simp_all add: cancelAutoInstall_def clearSquirrelFallbackTimer_def
       clearAutoInstallTimer_def sendToRenderer_def Let_def trace_simps split: option.splits)

lemma onReady_counting:
  assumes "\<not> autoInstallCancelled s"
  shows "counting (onReady s) (nextId s) 5"
    and "\<not> autoInstallCancelled (onReady s)"
    and "installs (trace (onReady s)) = installs (trace s)"
  using assms
  by (simp_all add: onReady_def clearSquirrelFallbackTimer_def startAutoInstallCountdown_def
        clearAutoInstallTimer_def sendToRenderer_def Let_def counting_def trace_simps
        AUTO_INSTALL_DELAY_SECONDS_def split: option.splits)

lemma fold_onReady_counting:
  "\<not> autoInstallCancelled s \<Longrightarrow> ls \<noteq> [] \<Longrightarrow>
     (\<exists>t. counting (foldl (\<lambda>s l. onReady s) s ls) t 5)
     \<and> installs (trace (foldl (\<lambda>s l. onReady s) s ls)) = installs (trace s)"
proof (induction ls arbitrary: s)
  case Nil
  then show ?case by simp
next
  case (Cons l ls)
  note r = onReady_counting [OF Cons.prems(1)]
  show ?case
  proof (cases ls)
    case Nil
    with r(1,3) show ?thesis by auto
  next
    case (Cons l' ls')
    then have "ls \<noteq> []" by simp
    from Cons.IH [OF r(2) this] r(3) show ?thesis by simp
  qed
qed

lemma native_starts:
  assumes "\<not> autoInstallCancelled v" "onReadyListeners v \<noteq> []"
  shows "(\<exists>t. counting (step v NativeUpdateDownloaded) t 5)
     \<and> installs (trace (step v NativeUpdateDownloaded)) = installs (trace v)"
proof -
  let ?v2 = "(if darwin v then v\<lparr>nativeSquirrelReady := True\<rparr> else v)\<lparr>onReadyListeners := []\<rparr>"
  have c: "\<not> autoInstallCancelled ?v2" and i: "installs (trace ?v2) = installs (trace v)"
    using assms(1) by simp_all
  from fold_onReady_counting [OF c assms(2)] i show ?thesis
    by (simp add: onNativeUpdateDownloaded_def Let_def split: if_splits)
qed

lemma five_ticks_install:
  "counting v t 5 \<Longrightarrow>
     installs (trace (run v (replicate 5 (IntervalFires t)))) = Suc (installs (trace v))"
  using ticks_run [of v t 4 5] by simp

lemma direct_start:
  assumes "autoDownload u" "\<not> (darwin u \<and> \<not> nativeSquirrelReady u)"
  shows "counting (step u (UpdateDownloaded ev)) (nextId u) 5"
    and "autoInstallCancelled (step u (UpdateDownloaded ev)) = autoInstallCancelled u"
    and "installs (trace (step u (UpdateDownloaded ev))) = installs (trace u)"
  using assms
  by (auto simp: onUpdateDownloaded_def updateStatus_def sendToRenderer_def
        startAutoInstallCountdown_def clearAutoInstallTimer_def Let_def counting_def
        trace_simps AUTO_INSTALL_DELAY_SECONDS_def split: option.splits)


lemma later_cycle_core:
  fixes u :: updater and ev :: update_info
  assumes ok: "timers_ok u" and auto: "autoDownload u"
  shows "(darwin u \<and> \<not> nativeSquirrelReady u \<longrightarrow>
           \<not> autoInstallCancelled (run u [CancelAutoInstall, UpdateDownloaded ev])
           \<and> (\<exists>t. counting (run u [CancelAutoInstall, UpdateDownloaded ev,
                      NativeUpdateDownloaded]) t 5
                \<and> installs (trace (run u ([CancelAutoInstall, UpdateDownloaded ev,
                      NativeUpdateDownloaded] @ replicate 5 (IntervalFires t))))
                    = Suc (installs (trace u)))
           \<and> (\<exists>t. counting (run u [CancelAutoInstall, UpdateDownloaded ev,
                      TimeoutFires (nextId u)]) t 5
                \<and> installs (trace (run u ([CancelAutoInstall, UpdateDownloaded ev,
                      TimeoutFires (nextId u)] @ replicate 5 (IntervalFires t))))
                    = Suc (installs (trace u))))
       \<and> (\<not> (darwin u \<and> \<not> nativeSquirrelReady u) \<longrightarrow>
           autoInstallCancelled (run u [CancelAutoInstall, UpdateDownloaded ev])
           \<and> (\<exists>t. counting (run u [CancelAutoInstall, UpdateDownloaded ev]) t 5
                \<and> installs (trace (run u ([CancelAutoInstall, UpdateDownloaded ev]
                      @ replicate 5 (IntervalFires t))))
                    = Suc (installs (trace u))))"
proof (intro conjI impI)
  let ?c = "cancelAutoInstall u"
  let ?v = "step ?c (UpdateDownloaded ev)"
  note c = cancel_facts [OF ok]
  from auto c(6) have ca: "autoDownload ?c" by simp
  {
    assume tp: "darwin u \<and> \<not> nativeSquirrelReady u"
    with c(4,5) have d: "darwin ?c" and r: "\<not> nativeSquirrelReady ?c" by simp_all
    note e = wait_entered [OF c(1) ca d r, of ev]
    show "\<not> autoInstallCancelled (run u [CancelAutoInstall, UpdateDownloaded ev])"
      using e(9) by simp
    from e(4) have ne: "onReadyListeners ?v \<noteq> []" by simp
    from native_starts [OF e(9) ne] obtain t where
      t: "counting (step ?v NativeUpdateDownloaded) t 5"
      and i: "installs (trace (step ?v NativeUpdateDownloaded)) = installs (trace ?v)"
      by blast
    from five_ticks_install [OF t] i e(6) c(8)
    have "installs (trace (run (step ?v NativeUpdateDownloaded) (replicate 5 (IntervalFires t))))
            = Suc (installs (trace u))" by simp
    with t show "\<exists>t. counting (run u [CancelAutoInstall, UpdateDownloaded ev,
                      NativeUpdateDownloaded]) t 5
                \<and> installs (trace (run u ([CancelAutoInstall, UpdateDownloaded ev,
                      NativeUpdateDownloaded] @ replicate 5 (IntervalFires t))))
                    = Suc (installs (trace u))"
      by (auto simp: run_append)
    from e(7) c(2) have n: "autoInstallTimer ?v = None" by simp
    note b = fallback_first [OF e(3) e(9) n]
    from five_ticks_install [OF b(2)] b(5) e(6) c(8)
    have "installs (trace (run (step ?v (TimeoutFires (nextId ?c)))
             (replicate 5 (IntervalFires (nextId ?v))))) = Suc (installs (trace u))" by simp
    with b(2) show "\<exists>t. counting (run u [CancelAutoInstall, UpdateDownloaded ev,
                      TimeoutFires (nextId u)]) t 5
                \<and> installs (trace (run u ([CancelAutoInstall, UpdateDownloaded ev,
                      TimeoutFires (nextId u)] @ replicate 5 (IntervalFires t))))
                    = Suc (installs (trace u))"
      unfolding c(7) by (auto simp: run_append)
  }
  {
    assume sp: "\<not> (darwin u \<and> \<not> nativeSquirrelReady u)"
    with c(4,5) have sp': "\<not> (darwin ?c \<and> \<not> nativeSquirrelReady ?c)" by simp
    note s = direct_start [OF ca sp', of ev]
    show "autoInstallCancelled (run u [CancelAutoInstall, UpdateDownloaded ev])"
      using s(2) c(3) by simp
    from five_ticks_install [OF s(1)] s(3) c(8)
    have "installs (trace (run ?v (replicate 5 (IntervalFires (nextId ?c)))))
            = Suc (installs (trace u))" by simp
    with s(1) show "\<exists>t. counting (run u [CancelAutoInstall, UpdateDownloaded ev]) t 5
                \<and> installs (trace (run u ([CancelAutoInstall, UpdateDownloaded ev]
                      @ replicate 5 (IntervalFires t))))
                    = Suc (installs (trace u))"
      by (auto simp: run_append)
  }
qed

lemma wait_resets_flag: "\<not> autoInstallCancelled (waitForSquirrelThenAutoInstall s)"
  by (simp add: waitForSquirrelThenAutoInstall_def Let_def)

lemma start_ignores_flag:
  "startAutoInstallCountdown (s\<lparr>autoInstallCancelled := b\<rparr>)
     = (startAutoInstallCountdown s)\<lparr>autoInstallCancelled := b\<rparr>"
  by (simp add: startAutoInstallCountdown_def clearAutoInstallTimer_def sendToRenderer_def
        Let_def split: option.splits)


text \<open>
  Claim C10. Every entry into the staging wait leaves the cancelled flag false, and
  \<^verbatim>\<open>startAutoInstallCountdown\<close> does not read the flag: it commutes with setting it.
  So, from any reachable state with automatic download on, after a cancellation the
  next downloaded event runs its cycle. On the two-phase path the flag is false again,
  and both the native signal and the fallback timer start a countdown whose fifth tick
  calls \<^verbatim>\<open>autoUpdater.quitAndInstall\<close>; on the single-phase path the flag is still
  set, and the countdown starts at once and installs at its fifth tick all the same.
\<close>

theorem later_cycle_ignores_earlier_cancel:
  fixes d :: bool and before :: "event list" and ev :: update_info and s :: updater
  assumes "autoDownload (run (init d) before)"
  shows "\<not> autoInstallCancelled (waitForSquirrelThenAutoInstall s)
       \<and> startAutoInstallCountdown (s\<lparr>autoInstallCancelled := b\<rparr>)
           = (startAutoInstallCountdown s)\<lparr>autoInstallCancelled := b\<rparr>
       \<and> (darwin (run (init d) before) \<and> \<not> nativeSquirrelReady (run (init d) before) \<longrightarrow>
           \<not> autoInstallCancelled
               (run (init d) (before @ [CancelAutoInstall, UpdateDownloaded ev]))
           \<and> (\<exists>t. counting (run (init d) (before @ [CancelAutoInstall, UpdateDownloaded ev,
                      NativeUpdateDownloaded])) t 5
                \<and> installs (trace (run (init d) (before @ [CancelAutoInstall,
                      UpdateDownloaded ev, NativeUpdateDownloaded]
                      @ replicate 5 (IntervalFires t))))
                    = Suc (installs (trace (run (init d) before))))
           \<and> (\<exists>t. counting (run (init d) (before @ [CancelAutoInstall, UpdateDownloaded ev,
                      TimeoutFires (nextId (run (init d) before))])) t 5
                \<and> installs (trace (run (init d) (before @ [CancelAutoInstall,
                      UpdateDownloaded ev, TimeoutFires (nextId (run (init d) before))]
                      @ replicate 5 (IntervalFires t))))
                    = Suc (installs (trace (run (init d) before)))))
       \<and> (\<not> (darwin (run (init d) before) \<and> \<not> nativeSquirrelReady (run (init d) before)) \<longrightarrow>
           autoInstallCancelled
               (run (init d) (before @ [CancelAutoInstall, UpdateDownloaded ev]))
           \<and> (\<exists>t. counting (run (init d) (before @ [CancelAutoInstall, UpdateDownloaded ev]))
                      t 5
                \<and> installs (trace (run (init d) (before @ [CancelAutoInstall,
                      UpdateDownloaded ev] @ replicate 5 (IntervalFires t))))
                    = Suc (installs (trace (run (init d) before)))))"
proof -
  have ok: "timers_ok (run (init d) before)" by (rule ok_reachable)
  note c = later_cycle_core [OF ok assms, of ev, folded run_append]
  from wait_resets_flag [of s] start_ignores_flag [where s = s and b = b] c show ?thesis
    by (simp only: append_assoc) blast
qed

theorem later_cycle_ignores_earlier_cancel_witness:
  "autoDownload (run (init True) [SetAutoDownload True, UpdateDownloaded (UpdateInfo ''2.0.0'')])
   \<and> darwin (run (init True) [SetAutoDownload True, UpdateDownloaded (UpdateInfo ''2.0.0'')])
   \<and> \<not> nativeSquirrelReady
         (run (init True) [SetAutoDownload True, UpdateDownloaded (UpdateInfo ''2.0.0'')])
   \<and> \<not> autoInstallCancelled
         (run (init True)
            ([SetAutoDownload True, UpdateDownloaded (UpdateInfo ''2.0.0'')]
               @ [CancelAutoInstall, UpdateDownloaded (UpdateInfo ''2.0.1'')]))
   \<and> autoDownload (run (init False) [SetAutoDownload True])
   \<and> \<not> darwin (run (init False) [SetAutoDownload True])
   \<and> autoInstallCancelled
         (run (init False)
            ([SetAutoDownload True]
               @ [CancelAutoInstall, UpdateDownloaded (UpdateInfo ''2.0.1'')]))
   \<and> (\<exists>t. installs
         (trace (run (init False)
            ([SetAutoDownload True]
               @ [CancelAutoInstall, UpdateDownloaded (UpdateInfo ''2.0.1'')]
               @ replicate 5 (IntervalFires t)))) = 1)"
proof -
  let ?u1 = "run (init True) [SetAutoDownload True, UpdateDownloaded (UpdateInfo ''2.0.0'')]"
  let ?u2 = "run (init False) [SetAutoDownload True]"
  have h1: "autoDownload ?u1" "darwin ?u1" "\<not> nativeSquirrelReady ?u1" by code_simp+
  have h2: "autoDownload ?u2" "\<not> darwin ?u2" by (simp_all add: init_def)
  have i2: "installs (trace ?u2) = 0" by (simp add: init_def installs_def)
  note t1 = later_cycle_ignores_earlier_cancel
    [OF h1(1), of _ _ "UpdateInfo ''2.0.1''"]
  note t2 = later_cycle_ignores_earlier_cancel
    [OF h2(1), of _ _ "UpdateInfo ''2.0.1''", unfolded i2]
  from t1 h1 have a: "\<not> autoInstallCancelled
         (run (init True)
            ([SetAutoDownload True, UpdateDownloaded (UpdateInfo ''2.0.0'')]
               @ [CancelAutoInstall, UpdateDownloaded (UpdateInfo ''2.0.1'')]))"
    by blast
  from t2 h2 have b: "autoInstallCancelled
         (run (init False)
            ([SetAutoDownload True]
               @ [CancelAutoInstall, UpdateDownloaded (UpdateInfo ''2.0.1'')]))
     \<and> (\<exists>t. installs
         (trace (run (init False)
            ([SetAutoDownload True]
               @ [CancelAutoInstall, UpdateDownloaded (UpdateInfo ''2.0.1'')]
               @ replicate 5 (IntervalFires t)))) = Suc 0)"
    by blast
  from h1 h2 a b show ?thesis by simp
qed

section \<open>The status and the check\<close>

lemma ustatus_sendToRenderer: "ustatus (sendToRenderer u m) = ustatus u"
  by (simp add: sendToRenderer_def)

lemma ustatus_updateStatus: "ustatus (updateStatus u p) = merge_status (ustatus u) p"
  by (simp add: updateStatus_def sendToRenderer_def Let_def)

lemma ustatus_clearAutoInstallTimer: "ustatus (clearAutoInstallTimer u) = ustatus u"
  by (simp add: clearAutoInstallTimer_def split: option.splits)

lemma ustatus_clearSquirrelFallbackTimer: "ustatus (clearSquirrelFallbackTimer u) = ustatus u"
  by (simp add: clearSquirrelFallbackTimer_def split: option.splits)

lemma ustatus_quitAndInstall: "ustatus (quitAndInstall u) = ustatus u"
  by (simp add: quitAndInstall_def Let_def)

lemma ustatus_startAutoInstallCountdown: "ustatus (startAutoInstallCountdown u) = ustatus u"
  by (simp add: startAutoInstallCountdown_def Let_def ustatus_sendToRenderer
        ustatus_clearAutoInstallTimer)

lemma ustatus_countdownTick: "ustatus (countdownTick u) = ustatus u"
  by (simp add: countdownTick_def Let_def ustatus_sendToRenderer ustatus_quitAndInstall
        ustatus_clearAutoInstallTimer)

lemma ustatus_onReady: "ustatus (onReady u) = ustatus u"
  by (simp add: onReady_def Let_def ustatus_startAutoInstallCountdown
        ustatus_clearSquirrelFallbackTimer)

lemma ustatus_fold_onReady: "ustatus (foldl (\<lambda>s l. onReady s) u ls) = ustatus u"
  by (induction ls arbitrary: u) (simp_all add: ustatus_onReady)

lemma ustatus_onNativeUpdateDownloaded: "ustatus (onNativeUpdateDownloaded u) = ustatus u"
  by (simp add: onNativeUpdateDownloaded_def Let_def ustatus_fold_onReady)

lemma ustatus_fallbackFired: "ustatus (fallbackFired u w) = ustatus u"
  by (simp add: fallbackFired_def Let_def ustatus_startAutoInstallCountdown)

lemma ustatus_timeoutFires: "ustatus (timeoutFires u t) = ustatus u"
  by (simp add: timeoutFires_def Let_def ustatus_fallbackFired
        split: option.splits timeout_kind.splits)

lemma ustatus_wait: "ustatus (waitForSquirrelThenAutoInstall u) = ustatus u"
  by (simp add: waitForSquirrelThenAutoInstall_def Let_def)

lemma ustatus_cancelAutoInstall: "ustatus (cancelAutoInstall u) = ustatus u"
  by (simp add: cancelAutoInstall_def Let_def ustatus_sendToRenderer
        ustatus_clearAutoInstallTimer ustatus_clearSquirrelFallbackTimer)

lemma ustatus_onUpdateDownloaded:
  "ustatus (onUpdateDownloaded u ev)
     = merge_status (ustatus u) ((only_status Downloaded)\<lparr>p_info := Some ev\<rparr>)"
  by (simp add: onUpdateDownloaded_def Let_def ustatus_updateStatus ustatus_wait
        ustatus_startAutoInstallCountdown)

lemma ustatus_checkSettled:
  "ustatus (fst (checkSettled u outcome)) =
     (case outcome of
        ResolvesNull \<Rightarrow>
          merge_status (ustatus u) ((only_status Error)\<lparr>p_error := Some DEV_MODE_MESSAGE\<rparr>)
      | Resolves r \<Rightarrow>
          (if status (ustatus u) = Checking \<or> status (ustatus u) = Idle
           then merge_status (ustatus u) (only_status NotAvailable) else ustatus u)
      | Rejects e \<Rightarrow>
          (case failure_text e of
             None \<Rightarrow> ustatus u
           | Some text \<Rightarrow>
               merge_status (ustatus u) ((only_status Error)\<lparr>p_error := Some text\<rparr>)))"
  by (simp add: checkSettled_def ustatus_updateStatus split: check_outcome.splits option.splits)

lemmas ustatus_simps = ustatus_updateStatus ustatus_onUpdateDownloaded
  ustatus_onNativeUpdateDownloaded ustatus_countdownTick ustatus_timeoutFires
  ustatus_cancelAutoInstall ustatus_quitAndInstall ustatus_checkSettled

lemma present_step: "payload_present (ustatus u) \<Longrightarrow> payload_present (ustatus (step u e))"
  by (cases e)
     (auto simp: ustatus_simps payload_present_def merge_status_def only_status_def
        split: check_outcome.splits option.splits)

lemma present_run: "payload_present (ustatus u) \<Longrightarrow> payload_present (ustatus (run u es))"
  by (induction es arbitrary: u) (simp_all add: present_step)

text \<open>
  Claim C9, as the spec words it: a payload field is present only under its own tags,
  and every merge keeps it so. After \<^verbatim>\<open>update-available\<close> and one
  \<^verbatim>\<open>download-progress\<close> the tag is \<^verbatim>\<open>downloading\<close> and the version info of the
  earlier status is still there: the merge that sets the progress breaks the rule, which
  held before it.
\<close>

theorem stale_payload_counterexample:
  "\<not> payload_by_tag
       (ustatus (run (init False)
          [UpdateAvailable (UpdateInfo ''2.0.0''), DownloadProgress (ProgressInfo 10)]))
   \<and> payload_by_tag
       (ustatus (run (init False) [UpdateAvailable (UpdateInfo ''2.0.0'')]))
   \<and> \<not> payload_by_tag
       (merge_status (ustatus (run (init False) [UpdateAvailable (UpdateInfo ''2.0.0'')]))
          ((only_status Downloading)\<lparr>p_progress := Some (ProgressInfo 10)\<rparr>))"
  by code_simp

text \<open>
  Claim C9, amended. A merge replaces the tag and the payload fields that the partial
  update supplies and keeps every other field as it was; \<^verbatim>\<open>updateStatus\<close> stores the
  merged status and sends all of it to an attached window. So in every reachable
  status no payload is present at \<^verbatim>\<open>idle\<close>, version info is present at
  \<^verbatim>\<open>available\<close> and \<^verbatim>\<open>downloaded\<close>, progress at \<^verbatim>\<open>downloading\<close>, an error message
  at \<^verbatim>\<open>error\<close>; payload of earlier statuses may stay under later tags.
\<close>

theorem merge_keeps_last_payload:
  "status (merge_status s p) = (case p_status p of Some t \<Rightarrow> t | None \<Rightarrow> status s)
   \<and> info (merge_status s p) = (case p_info p of Some i \<Rightarrow> Some i | None \<Rightarrow> info s)
   \<and> progress (merge_status s p)
       = (case p_progress p of Some g \<Rightarrow> Some g | None \<Rightarrow> progress s)
   \<and> error (merge_status s p) = (case p_error p of Some e \<Rightarrow> Some e | None \<Rightarrow> error s)
   \<and> ustatus (updateStatus u p) = merge_status (ustatus u) p
   \<and> (mainWindow u = Some False \<longrightarrow>
        trace (updateStatus u p) = trace u @ [Send (StatusChanged (merge_status (ustatus u) p))])
   \<and> payload_present (ustatus (run (init d) es))"
proof -
  have "payload_present (ustatus (init d))" by (simp add: payload_present_def init_def)
  then have "payload_present (ustatus (run (init d) es))" by (rule present_run)
  then show ?thesis
    by (simp add: merge_status_def updateStatus_def sendToRenderer_def Let_def)
qed

theorem merge_keeps_last_payload_witness:
  "mainWindow (run (init True) [SetMainWindow False]) = Some False
   \<and> trace (updateStatus (run (init True) [SetMainWindow False]) (only_status Checking))
       = [Send (StatusChanged \<lparr>status = Checking, info = None, progress = None, error = None\<rparr>)]
   \<and> status (ustatus (run (init True)
        [UpdateAvailable (UpdateInfo ''2.0.0''), DownloadProgress (ProgressInfo 10)]))
       = Downloading
   \<and> progress (ustatus (run (init True)
        [UpdateAvailable (UpdateInfo ''2.0.0''), DownloadProgress (ProgressInfo 10)])) \<noteq> None"
proof -
  let ?u = "run (init True) [SetMainWindow False]"
  let ?es = "[UpdateAvailable (UpdateInfo ''2.0.0''), DownloadProgress (ProgressInfo 10)]"
  have w: "mainWindow ?u = Some False" by (simp add: init_def)
  have t: "trace ?u = []" by (simp add: init_def)
  have m: "merge_status (ustatus ?u) (only_status Checking)
             = \<lparr>status = Checking, info = None, progress = None, error = None\<rparr>"
    by (simp add: init_def merge_status_def only_status_def)
  have s: "status (ustatus (run (init True) ?es)) = Downloading" by code_simp
  note th = merge_keeps_last_payload
    [where u = ?u and p = "only_status Checking" and d = True and es = ?es]
  from th w have a: "trace (updateStatus ?u (only_status Checking))
       = trace ?u @ [Send (StatusChanged (merge_status (ustatus ?u) (only_status Checking)))]"
    by blast
  from th have "payload_present (ustatus (run (init True) ?es))" by blast
  with s have b: "progress (ustatus (run (init True) ?es)) \<noteq> None"
    by (simp add: payload_present_def)
  from w a b s show ?thesis unfolding t m by simp
qed



lemma check_reject_parts:
  assumes "failure_text e = Some t"
  shows "snd (checkForUpdates u during (Rejects e)) = Inl (Rethrown e)"
    and "ustatus (fst (checkForUpdates u during (Rejects e)))
           = merge_status (ustatus (run u during)) ((only_status Error)\<lparr>p_error := Some t\<rparr>)"
    and "mainWindow (run u during) = Some False \<Longrightarrow>
           trace (fst (checkForUpdates u during (Rejects e)))
             = trace (run u during)
                 @ [Send (StatusChanged (ustatus (fst (checkForUpdates u during (Rejects e)))))]"
  using assms
  by (simp_all add: checkForUpdates_def checkSettled_def updateStatus_def sendToRenderer_def
        Let_def)

lemma check_reject_unreadable:
  assumes "failure_text e = None"
  shows "checkForUpdates u during (Rejects e) = (run u during, Inl RaisedInCatch)"
  using assms by (simp add: checkForUpdates_def checkSettled_def)





text \<open>
  A failed check whose thrown value has a readable text: the status becomes \<^verbatim>\<open>error\<close>
  with that text, and the same value is thrown to the caller.
\<close>

lemma check_failure_with_text:
  "failure_text e = Some t \<Longrightarrow>
     snd (checkForUpdates u during (Rejects e)) = Inl (Rethrown e)
     \<and> status (ustatus (fst (checkForUpdates u during (Rejects e)))) = Error
     \<and> error (ustatus (fst (checkForUpdates u during (Rejects e)))) = Some t"
  using check_reject_parts(1,2) [of e t u during]
  by (simp add: merge_status_def only_status_def)

lemma failure_text_message: "m \<noteq> [] \<Longrightarrow> failure_text (Thrown (Some m) s) = Some m"
  by simp

text \<open>
  Claim C7 at its failing input. The awaited check rejects with \<^verbatim>\<open>null\<close> or
  \<^verbatim>\<open>undefined\<close>. The catch block reads \<^verbatim>\<open>(error as Error).message\<close> first, which throws
  a TypeError: \<^verbatim>\<open>updateStatus\<close> is not called and \<^verbatim>\<open>throw error\<close> is not reached. The
  updater is left as it was, here with the status \<^verbatim>\<open>checking\<close> and no error text, and
  the caller gets the TypeError, not the value the check rejected with.
\<close>

theorem nullish_rejection_escapes_catch:
  "checkForUpdates u during (Rejects Nullish) = (run u during, Inl RaisedInCatch)
   \<and> snd (checkForUpdates (init False) [CheckingForUpdate] (Rejects Nullish))
       = Inl RaisedInCatch
   \<and> status (ustatus (fst (checkForUpdates (init False) [CheckingForUpdate] (Rejects Nullish))))
       = Checking
   \<and> error (ustatus (fst (checkForUpdates (init False) [CheckingForUpdate] (Rejects Nullish))))
       = None"
proof -
  have n: "failure_text Nullish = None" by simp
  have c: "ustatus (run (init False) [CheckingForUpdate])
             = \<lparr>status = Checking, info = None, progress = None, error = None\<rparr>"
    by code_simp
  from check_reject_unreadable [OF n] c show ?thesis by simp
qed

text \<open>
  Whenever the awaited check settles in any other way (it resolves, or it rejects with a
  value whose text can be read), the status at the end is neither \<^verbatim>\<open>checking\<close> nor
  \<^verbatim>\<open>idle\<close>; and a check that resolves with a result while the status is still
  \<^verbatim>\<open>checking\<close> or \<^verbatim>\<open>idle\<close> forces \<^verbatim>\<open>not-available\<close>.
\<close>

lemma check_ends_settled_otherwise:
  assumes "\<And>e. outcome = Rejects e \<Longrightarrow> failure_text e \<noteq> None"
  shows "status (ustatus (fst (checkForUpdates u during outcome))) \<noteq> Checking
     \<and> status (ustatus (fst (checkForUpdates u during outcome))) \<noteq> Idle"
proof (cases outcome)
  case (Rejects e)
  with assms obtain t where "failure_text e = Some t" by auto
  from check_failure_with_text [OF this, of u during] Rejects show ?thesis by simp
qed (auto simp: checkForUpdates_def ustatus_checkSettled merge_status_def only_status_def)

lemma check_forces_not_available:
  "status (ustatus (run u during)) = Checking \<or> status (ustatus (run u during)) = Idle \<Longrightarrow>
     status (ustatus (fst (checkForUpdates u during (Resolves r)))) = NotAvailable
     \<and> snd (checkForUpdates u during (Resolves r)) = Inr r"
proof -
  assume a: "status (ustatus (run u during)) = Checking \<or> status (ustatus (run u during)) = Idle"
  have "snd (checkForUpdates u during (Resolves r)) = Inr r"
    by (simp add: checkForUpdates_def checkSettled_def)
  with a show ?thesis
    by (auto simp: checkForUpdates_def ustatus_checkSettled merge_status_def only_status_def)
qed

text \<open>
  Claim C8 at its failing input. electron-updater emits \<^verbatim>\<open>checking-for-update\<close>, then
  the awaited check rejects with \<^verbatim>\<open>null\<close> or \<^verbatim>\<open>undefined\<close>. The TypeError of the
  catch block leaves the method before any status is set: the call ends with the status
  \<^verbatim>\<open>checking\<close>, and the only status ever published is \<^verbatim>\<open>checking\<close>. Without the
  event the call ends at \<^verbatim>\<open>idle\<close>.
\<close>

theorem nullish_rejection_leaves_checking:
  "status (ustatus (fst (checkForUpdates (init False) [SetMainWindow False, CheckingForUpdate]
       (Rejects Nullish)))) = Checking
   \<and> trace (fst (checkForUpdates (init False) [SetMainWindow False, CheckingForUpdate]
       (Rejects Nullish)))
       = [Send (StatusChanged \<lparr>status = Checking, info = None, progress = None, error = None\<rparr>)]
   \<and> status (ustatus (fst (checkForUpdates (init False) [] (Rejects Nullish)))) = Idle"
  by code_simp

end
